theory Spec2Isabelle
  imports Main "HOL-Library.Word" "HOL-Library.Sublist" "HOL-Library.AList"
begin

section \<open>Strings\<close>

text \<open>
  The functions of Go's \<open>strings\<close>, \<open>fmt\<close> and \<open>path/filepath\<close> packages that
  the two source files call. A Go string is a byte sequence, here a \<^typ>\<open>string\<close>.
\<close>

definition HasPrefix :: "string \<Rightarrow> string \<Rightarrow> bool" where
  "HasPrefix s p = prefix p s"

definition TrimPrefix :: "string \<Rightarrow> string \<Rightarrow> string" where
  "TrimPrefix s p = (if HasPrefix s p then drop (length p) s else s)"

definition HasSuffix :: "string \<Rightarrow> string \<Rightarrow> bool" where
  "HasSuffix s suf = prefix (rev suf) (rev s)"

definition TrimSuffix :: "string \<Rightarrow> string \<Rightarrow> string" where
  "TrimSuffix s suf = (if HasSuffix s suf then take (length s - length suf) s else s)"

fun Contains :: "string \<Rightarrow> string \<Rightarrow> bool" where
  "Contains [] substr = (substr = [])"
| "Contains (c # s) substr = (prefix substr (c # s) \<or> Contains s substr)"

text \<open>
  \<open>fmt.Sprintf\<close> for the one verb the program uses, \<open>%s\<close> with string operands:
  each \<open>%s\<close> is replaced by the next operand, every other byte is copied.
\<close>

fun Sprintf :: "string \<Rightarrow> string list \<Rightarrow> string" where
  "Sprintf [] args = []"
| "Sprintf [c] args = [c]"
| "Sprintf (c # d # format) args =
     (if c = CHR ''%'' \<and> d = CHR ''s'' then
        (case args of
           [] \<Rightarrow> ''%!s(MISSING)'' @ Sprintf format []
         | a # rest \<Rightarrow> a @ Sprintf format rest)
      else c # Sprintf (d # format) args)"

text \<open>
  \<open>filepath.Base\<close> on a Unix path: trailing slashes are dropped, then everything up to
  the last slash; the empty path is \<open>.\<close>, a path of slashes only is \<open>/\<close>.
\<close>

definition Base :: "string \<Rightarrow> string" where
  "Base path =
     (if path = [] then ''.''
      else let stripped = rev (dropWhile (\<lambda>c. c = CHR ''/'') (rev path));
               elem = rev (takeWhile (\<lambda>c. c \<noteq> CHR ''/'') (rev stripped))
           in if elem = [] then ''/'' else elem)"

section \<open>Errors\<close>

datatype error =
    Errorf string
  | RedisNil
  | BackendError
  | NumError string
  | URLError string
  | ErrBadPattern
  | ReadError string
  | TemplateParseError string

section \<open>The remote key-value store\<close>

text \<open>
  The Redis server behind \<open>redis.Client\<close> is not part of the repository. It is modelled
  as a table of slots, each a key with its value and recorded expiry, or with nothing
  once the key has been deleted; a slot keeps its place, so that a cursor walking the
  table meets every key that stays in it. \<open>rejects\<close> tells which commands the backend
  fails (a network error, a refused command); a reliable backend rejects none. No time
  passes between commands: a positive expiry is recorded and never fires.
\<close>

type_synonym duration = "64 word"

datatype command =
    SET string string duration
  | EXPIRE string duration
  | GET string
  | DEL string
  | SCAN nat string nat

record redis =
  slots :: "(string \<times> (string \<times> duration) option) list"
  rejects :: "command \<Rightarrow> bool"

definition Second :: duration where
  "Second = 1000000000"

definition live :: "redis \<Rightarrow> string \<Rightarrow> (string \<times> duration) option" where
  "live r key = (case map_of (slots r) key of Some (Some e) \<Rightarrow> Some e | _ \<Rightarrow> None)"

text \<open>
  \<open>SET key value [EX ttl]\<close> as go-redis sends it: an expiry only when the duration is
  positive, \<open>KEEPTTL\<close> when it is \<open>-1\<close>, no expiry (recorded as 0) otherwise.
\<close>

definition redis_Set :: "redis \<Rightarrow> string \<Rightarrow> string \<Rightarrow> duration \<Rightarrow> (error + string) \<times> redis" where
  "redis_Set r key val expiration =
     (if rejects r (SET key val expiration) then (Inl BackendError, r)
      else let expiry =
                 (if 0 < sint expiration then expiration
                  else if expiration = - 1 then (case live r key of None \<Rightarrow> 0 | Some (old, ttl) \<Rightarrow> ttl)
                  else 0)
           in (Inr ''OK'', r\<lparr>slots := AList.update key (Some (val, expiry)) (slots r)\<rparr>))"

text \<open>
  \<open>EXPIRE key seconds\<close>: false when the key does not exist; a timeout that is not
  positive deletes the key at once.
\<close>

definition redis_Expire :: "redis \<Rightarrow> string \<Rightarrow> duration \<Rightarrow> (error + bool) \<times> redis" where
  "redis_Expire r key expiration =
     (if rejects r (EXPIRE key expiration) then (Inl BackendError, r)
      else case live r key of
             None \<Rightarrow> (Inr False, r)
           | Some (val, ttl) \<Rightarrow>
               if 0 < sint expiration
               then (Inr True, r\<lparr>slots := AList.update key (Some (val, expiration)) (slots r)\<rparr>)
               else (Inr True, r\<lparr>slots := AList.update key None (slots r)\<rparr>))"

definition redis_Get :: "redis \<Rightarrow> string \<Rightarrow> error + string" where
  "redis_Get r key =
     (if rejects r (GET key) then Inl BackendError
      else case live r key of
             None \<Rightarrow> Inl RedisNil
           | Some (val, ttl) \<Rightarrow> Inr val)"

definition redis_Del :: "redis \<Rightarrow> string \<Rightarrow> (error + int) \<times> redis" where
  "redis_Del r key =
     (if rejects r (DEL key) then (Inl BackendError, r)
      else case live r key of
             None \<Rightarrow> (Inr 0, r)
           | Some e \<Rightarrow> (Inr 1, r\<lparr>slots := AList.update key None (slots r)\<rparr>))"

text \<open>
  \<open>SCAN cursor MATCH pattern COUNT count\<close>. The server compares every key with the
  pattern as a glob, byte by byte and case-sensitively (\<open>stringmatchlen\<close> of the
  server's \<open>util.c\<close>): \<open>*\<close> stands for any run of bytes, \<open>?\<close> for any one byte,
  \<open>[...]\<close> for one byte of a class (negated by a leading \<open>^\<close>, with ranges \<open>a-z\<close>
  whose bounds are compared as signed bytes and swapped when out of order, closed by
  \<open>]\<close> or by the end of the pattern), and a backslash takes the next byte
  literally; a \<open>]\<close> outside a class is an ordinary byte. The pattern \<open>*\<close> alone is
  not compared at all. A page is the next \<open>count\<close> slots; the cursor handed back is 0
  once the table is exhausted.
\<close>

definition schar :: "char \<Rightarrow> int" where
  "schar c = (if (of_char c :: nat) < 128 then int (of_char c) else int (of_char c) - 256)"

definition in_range :: "char \<Rightarrow> char \<Rightarrow> char \<Rightarrow> bool" where
  "in_range start end c =
     (min (schar start) (schar end) \<le> schar c \<and> schar c \<le> max (schar start) (schar end))"

text \<open>
  The loop over the body of a class, from the byte after \<open>[\<close> (and \<open>^\<close>): whether
  the byte \<open>c\<close> of the key has been found in the class, and the pattern that follows
  the class.
\<close>

fun class_match :: "string \<Rightarrow> char \<Rightarrow> bool \<Rightarrow> bool \<times> string" where
  "class_match [] c m = (m, [])"
| "class_match [x] c m = (if x = CHR '']'' then (m, []) else class_match [] c (m \<or> x = c))"
| "class_match [x, y] c m =
     (if x = CHR 0x5C then class_match [] c (m \<or> y = c)
      else if x = CHR '']'' then (m, [y])
      else class_match [y] c (m \<or> x = c))"
| "class_match (x # y # z # p) c m =
     (if x = CHR 0x5C then class_match (z # p) c (m \<or> y = c)
      else if x = CHR '']'' then (m, y # z # p)
      else if y = CHR ''-'' then class_match p c (m \<or> in_range x z c)
      else class_match (y # z # p) c (m \<or> x = c))"

lemma class_match_length: "length (snd (class_match p c m)) \<le> length p"
  by (induction p c m rule: class_match.induct) (auto intro: le_SucI)

fun nonempty_suffixes :: "string \<Rightarrow> string list" where
  "nonempty_suffixes [] = []"
| "nonempty_suffixes (c # s) = (c # s) # nonempty_suffixes s"

definition skip_stars :: "string \<Rightarrow> string" where
  "skip_stars pattern = dropWhile (\<lambda>x. x = CHR ''*'') pattern"

lemma length_skip_stars: "length (skip_stars p) \<le> length p"
  by (simp add: skip_stars_def length_dropWhile_le)

text \<open>
  \<open>stringmatchlen\<close>: nothing is compared once the key or the pattern is exhausted,
  and the match then succeeds when both are; after the last byte of the key, the
  stars that follow in the pattern are skipped. A star that is not the last byte of
  the pattern tries the rest of the pattern on every non-empty suffix of the key.
\<close>

function stringmatchlen :: "string \<Rightarrow> string \<Rightarrow> bool" where
  "stringmatchlen [] str = (str = [])"
| "stringmatchlen (x # p) [] = False"
| "stringmatchlen (x # p) (c # s) =
     (if x = CHR ''*'' then
        (skip_stars p = [] \<or> list_ex (stringmatchlen (skip_stars p)) (nonempty_suffixes (c # s)))
      else if x = CHR ''?'' then
        (if s = [] then skip_stars p = [] else stringmatchlen p s)
      else if x = CHR ''['' then
        (let negated = (p \<noteq> [] \<and> hd p = CHR ''^'');
             found = class_match (if negated then tl p else p) c False
         in fst found \<noteq> negated \<and>
            (if s = [] then skip_stars (snd found) = [] else stringmatchlen (snd found) s))
      else if x = CHR 0x5C \<and> p \<noteq> [] then
        (hd p = c \<and> (if s = [] then skip_stars (tl p) = [] else stringmatchlen (tl p) s))
      else
        (x = c \<and> (if s = [] then skip_stars p = [] else stringmatchlen p s)))"
  by pat_completeness auto
termination
proof (relation "measure (\<lambda>(p, s). length p)")
  show "wf (measure (\<lambda>(p, s). length p))"
    by simp
next
  fix x :: char and p :: string and c :: char and s :: string and t :: string
  show "((skip_stars p, t), x # p, c # s) \<in> measure (\<lambda>(p, s). length p)"
    using length_skip_stars [of p] by simp
next
  fix x :: char and p :: string and c :: char and s :: string
  show "((p, s), x # p, c # s) \<in> measure (\<lambda>(p, s). length p)"
    by simp
next
  fix x :: char and p :: string and c :: char and s :: string and negated :: bool
    and found :: "bool \<times> string"
  assume "found = class_match (if negated then tl p else p) c False"
  then have "length (snd found) \<le> length (if negated then tl p else p)"
    by (simp only: class_match_length)
  also have "\<dots> \<le> length p"
    by simp
  finally show "((snd found, s), x # p, c # s) \<in> measure (\<lambda>(p, s). length p)"
    by simp
next
  fix x :: char and p :: string and c :: char and s :: string
  assume "x = CHR 0x5C \<and> p \<noteq> []"
  then show "((tl p, s), x # p, c # s) \<in> measure (\<lambda>(p, s). length p)"
    by simp
next
  fix x :: char and p :: string and c :: char and s :: string
  show "((p, s), x # p, c # s) \<in> measure (\<lambda>(p, s). length p)"
    by simp
qed

definition scan_match :: "string \<Rightarrow> string \<Rightarrow> bool" where
  "scan_match pattern key = (pattern = ''*'' \<or> stringmatchlen pattern key)"

fun page_keys :: "string \<Rightarrow> (string \<times> (string \<times> duration) option) list \<Rightarrow> string list" where
  "page_keys pattern [] = []"
| "page_keys pattern ((key, None) # page) = page_keys pattern page"
| "page_keys pattern ((key, Some e) # page) =
     (if scan_match pattern key then key # page_keys pattern page else page_keys pattern page)"

definition redis_Scan :: "redis \<Rightarrow> nat \<Rightarrow> string \<Rightarrow> nat \<Rightarrow> error + (string list \<times> nat)" where
  "redis_Scan r cursor pattern count =
     (if rejects r (SCAN cursor pattern count) then Inl BackendError
      else Inr (page_keys pattern (take count (drop cursor (slots r))),
                if cursor + count < length (slots r) then cursor + count else 0))"

section \<open>Storage\<close>

record Storage =
  UseRedis :: bool
  MemoryStore :: "(string \<times> string) list"
  MemoryTemplateMap :: "(string \<times> string) list"
  RedisStore :: redis
  Organization :: string
  TTL :: duration

text \<open>
  A Go map is an association list with one entry per key; \<open>m[k] = v\<close> is
  \<^const>\<open>AList.update\<close>, \<open>delete(m, k)\<close> is \<^const>\<open>AList.delete\<close>, and
  \<open>range m\<close> walks the list (Go fixes no order; the list's order stands for whichever
  one a run takes). The in-memory store has no client (\<open>nil\<close> in the source): its
  \<open>RedisStore\<close> field is never read.
\<close>

definition nil_client :: redis where
  "nil_client = \<lparr>slots = [], rejects = (\<lambda>c. True)\<rparr>"

subsection \<open>InitStorage\<close>

text \<open>
  \<open>strconv.Atoi\<close> for a 64-bit \<open>int\<close>. A text of 1 to 18 bytes takes the fast path: an
  optional sign, then every byte must be a decimal digit, and a syntax error with 0
  is returned otherwise. Every other text goes through \<open>ParseInt(s, 10, 0)\<close>, whose
  \<open>ParseUint\<close> reads the bytes from the left and returns at the first byte that is
  not a digit (0, syntax error) or at the first digit with which the number no
  longer fits 64 bits (the largest \<open>uint64\<close>, range error), whichever comes first;
  \<open>ParseInt\<close> turns a range error, or a number beyond the bound of its sign, into
  that bound with a range error.
\<close>

definition is_digit :: "char \<Rightarrow> bool" where
  "is_digit c = (c \<in> set ''0123456789'')"

fun digits_value :: "int \<Rightarrow> string \<Rightarrow> int" where
  "digits_value n [] = n"
| "digits_value n (c # cs) = digits_value (10 * n + (int (of_char c) - 48)) cs"

fun ParseUint_loop :: "nat \<Rightarrow> string \<Rightarrow> nat \<times> error option" where
  "ParseUint_loop n [] = (n, None)"
| "ParseUint_loop n (c # s) =
     (if \<not> is_digit c then (0, Some (NumError ''invalid syntax''))
      else if 1844674407370955162 \<le> n then
        (18446744073709551615, Some (NumError ''value out of range''))
      else if 18446744073709551615 < n * 10 + (of_char c - 48) then
        (18446744073709551615, Some (NumError ''value out of range''))
      else ParseUint_loop (n * 10 + (of_char c - 48)) s)"

definition ParseUint :: "string \<Rightarrow> nat \<times> error option" where
  "ParseUint s = (if s = [] then (0, Some (NumError ''invalid syntax'')) else ParseUint_loop 0 s)"

definition ParseInt :: "string \<Rightarrow> int \<times> error option" where
  "ParseInt s =
     (if s = [] then (0, Some (NumError ''invalid syntax''))
      else
        (let neg = (hd s = CHR ''-'');
             body = (if hd s = CHR ''+'' \<or> hd s = CHR ''-'' then tl s else s);
             un = fst (ParseUint body);
             err = snd (ParseUint body)
         in if err = Some (NumError ''invalid syntax'') then (0, err)
            else if \<not> neg \<and> 9223372036854775808 \<le> un then
              (9223372036854775807, Some (NumError ''value out of range''))
            else if neg \<and> 9223372036854775808 < un then
              (- 9223372036854775808, Some (NumError ''value out of range''))
            else (if neg then - int un else int un, None)))"

definition Atoi :: "string \<Rightarrow> int \<times> error option" where
  "Atoi s =
     (if 0 < length s \<and> length s < 19 then
        (let body = (if hd s = CHR ''-'' \<or> hd s = CHR ''+'' then tl s else s)
         in if body = [] then (0, Some (NumError ''invalid syntax''))
            else if \<not> list_all is_digit body then (0, Some (NumError ''invalid syntax''))
            else (if hd s = CHR ''-'' then - digits_value 0 body else digits_value 0 body, None))
      else ParseInt s)"

text \<open>
  The process environment, and \<open>redis.ParseURL\<close> followed by \<open>redis.NewClient\<close>: the
  server the URL names, or the URL's parse error.
\<close>

record env =
  Getenv :: "string \<Rightarrow> string"
  ParseURL :: "string \<Rightarrow> error + redis"

definition InitStorage :: "env \<Rightarrow> error + Storage" where
  "InitStorage e =
     (let orgName = Getenv e ''ORG_NAME'';
          useRedis = (Getenv e ''USE_REDIS'' = ''true'')
      in if useRedis then
           (case ParseURL e (Getenv e ''REDIS_URL'') of
              Inl err \<Rightarrow> Inl err
            | Inr redisClient \<Rightarrow>
                let ttlEnv = Getenv e ''REDIS_TTL'';
                    ttlNum = (if 0 < length ttlEnv then fst (Atoi ttlEnv) else 259200);
                    ttlDuration = word_of_int ttlNum * Second
                in Inr \<lparr>UseRedis = True, MemoryStore = [], MemoryTemplateMap = [],
                         RedisStore = redisClient, Organization = orgName, TTL = ttlDuration\<rparr>)
         else Inr \<lparr>UseRedis = False, MemoryStore = [], MemoryTemplateMap = [],
                    RedisStore = nil_client, Organization = orgName, TTL = 0\<rparr>)"

subsection \<open>SetWithTemplate, Set\<close>

definition SetWithTemplate :: "Storage \<Rightarrow> string \<Rightarrow> string \<Rightarrow> string \<Rightarrow> error option \<times> Storage" where
  "SetWithTemplate s id' content templateName =
     (let key = Sprintf ''{%s}:%s'' [Organization s, id'] in
      if UseRedis s then
        (case redis_Set (RedisStore s) key content 0 of
           (Inl err, r1) \<Rightarrow> (Some err, s\<lparr>RedisStore := r1\<rparr>)
         | (Inr ok, r1) \<Rightarrow>
             (case redis_Expire r1 key (TTL s) of
                (Inl err, r2) \<Rightarrow> (Some err, s\<lparr>RedisStore := r2\<rparr>)
              | (Inr ok, r2) \<Rightarrow>
                  let templateKey = Sprintf ''{%s}:template:%s'' [Organization s, id'] in
                  (case redis_Set r2 templateKey templateName (TTL s) of
                     (Inl err, r3) \<Rightarrow> (Some err, s\<lparr>RedisStore := r3\<rparr>)
                   | (Inr ok, r3) \<Rightarrow> (None, s\<lparr>RedisStore := r3\<rparr>))))
      else (None, s\<lparr>MemoryStore := AList.update key content (MemoryStore s),
                     MemoryTemplateMap := AList.update key templateName (MemoryTemplateMap s)\<rparr>))"

definition Set :: "Storage \<Rightarrow> string \<Rightarrow> string \<Rightarrow> error option \<times> Storage" where
  "Set s id' content = SetWithTemplate s id' content ''unknown''"

subsection \<open>Get, GetTemplate\<close>

definition Get :: "Storage \<Rightarrow> string \<Rightarrow> error + string" where
  "Get s id' =
     (let key = Sprintf ''{%s}:%s'' [Organization s, id'] in
      if UseRedis s then
        (case redis_Get (RedisStore s) key of
           Inl err \<Rightarrow> Inl (Errorf (Sprintf ''Key (id) does not exist: %s'' [id']))
         | Inr val \<Rightarrow> Inr val)
      else
        (case map_of (MemoryStore s) key of
           None \<Rightarrow> Inl (Errorf (Sprintf ''Key (id) does not exist: %s'' [id']))
         | Some val \<Rightarrow> Inr val))"

definition GetTemplate :: "Storage \<Rightarrow> string \<Rightarrow> error + string" where
  "GetTemplate s id' =
     (if UseRedis s then
        (let templateKey = Sprintf ''{%s}:template:%s'' [Organization s, id'] in
         case redis_Get (RedisStore s) templateKey of
           Inl err \<Rightarrow> Inl (Errorf (Sprintf ''Template information not found for config: %s'' [id']))
         | Inr templateName \<Rightarrow> Inr templateName)
      else
        (let templateKey = Sprintf ''{%s}:%s'' [Organization s, id'] in
         case map_of (MemoryTemplateMap s) templateKey of
           None \<Rightarrow> Inl (Errorf (Sprintf ''Template information not found for config: %s'' [id']))
         | Some templateName \<Rightarrow> Inr templateName))"

subsection \<open>RemoveByTemplate\<close>

text \<open>
  The remote branch. \<open>RemoveByTemplate_templateKey\<close> is the key the loop body reads
  to learn which template a scanned key came from; \<open>RemoveByTemplate_keys\<close> is the
  loop over one page of scanned keys (a failed \<open>Del\<close> is logged and the loop goes
  on), \<open>RemoveByTemplate_scan\<close> the cursor loop around it.
\<close>

definition RemoveByTemplate_templateKey :: "string \<Rightarrow> string \<Rightarrow> string" where
  "RemoveByTemplate_templateKey orgPrefix configKey =
     Sprintf ''%s:template:%s'' [orgPrefix, TrimPrefix configKey orgPrefix]"

fun RemoveByTemplate_keys :: "redis \<Rightarrow> string \<Rightarrow> string \<Rightarrow> string list \<Rightarrow> redis" where
  "RemoveByTemplate_keys r orgPrefix templateName [] = r"
| "RemoveByTemplate_keys r orgPrefix templateName (configKey # configKeys) =
     (if Contains configKey '':template:''
      then RemoveByTemplate_keys r orgPrefix templateName configKeys
      else let templateKey = RemoveByTemplate_templateKey orgPrefix configKey in
           case redis_Get r templateKey of
             Inl err \<Rightarrow> RemoveByTemplate_keys r orgPrefix templateName configKeys
           | Inr storedTemplateName \<Rightarrow>
               if storedTemplateName \<noteq> templateName
               then RemoveByTemplate_keys r orgPrefix templateName configKeys
               else let r1 = snd (redis_Del r configKey);
                        r2 = snd (redis_Del r1 templateKey)
                    in RemoveByTemplate_keys r2 orgPrefix templateName configKeys)"

lemma live_in_slots: "live r key = Some e \<Longrightarrow> key \<in> fst ` set (slots r)"
  by (auto simp: live_def split: option.splits dest!: map_of_SomeD intro: rev_image_eqI)

lemma length_update_present:
  "k \<in> fst ` set al \<Longrightarrow> length (AList.update k v al) = length al"
  by (induction al) auto

lemma length_slots_Del: "length (slots (snd (redis_Del r key))) = length (slots r)"
  by (auto simp: redis_Del_def split: option.splits
        intro!: length_update_present live_in_slots)

lemma length_slots_keys:
  "length (slots (RemoveByTemplate_keys r orgPrefix templateName configKeys)) = length (slots r)"
  by (induction r orgPrefix templateName configKeys rule: RemoveByTemplate_keys.induct)
     (simp_all add: Let_def length_slots_Del split: sum.splits)

lemma redis_Scan_next:
  "redis_Scan r cursor pattern count = Inr (keys, next) \<Longrightarrow> next \<noteq> 0 \<Longrightarrow>
     next = cursor + count \<and> next < length (slots r)"
  by (auto simp: redis_Scan_def split: if_splits)

function RemoveByTemplate_scan ::
  "redis \<Rightarrow> string \<Rightarrow> string \<Rightarrow> string \<Rightarrow> nat \<Rightarrow> error option \<times> redis" where
  "RemoveByTemplate_scan r orgPrefix matchPattern templateName cursor =
     (case redis_Scan r cursor matchPattern 100 of
        Inl err \<Rightarrow> (Some err, r)
      | Inr (configKeys, next) \<Rightarrow>
          let r' = RemoveByTemplate_keys r orgPrefix templateName configKeys in
          if next = 0 then (None, r')
          else RemoveByTemplate_scan r' orgPrefix matchPattern templateName next)"
  by pat_completeness auto
termination
proof (relation "measure (\<lambda>(r, orgPrefix, matchPattern, templateName, cursor). length (slots r) - cursor)")
  show "wf (measure (\<lambda>(r, orgPrefix, matchPattern, templateName, cursor). length (slots r) - cursor))"
    by simp
next
  fix r :: redis and orgPrefix matchPattern templateName :: string and cursor :: nat
    and page :: "string list \<times> nat" and configKeys :: "string list" and "next" :: nat and r' :: redis
  assume scan: "redis_Scan r cursor matchPattern 100 = Inr page"
    and page: "(configKeys, next) = page"
    and r': "r' = RemoveByTemplate_keys r orgPrefix templateName configKeys"
    and more: "next \<noteq> 0"
  from scan page have "redis_Scan r cursor matchPattern 100 = Inr (configKeys, next)"
    by simp
  from redis_Scan_next [OF this more] have "next = cursor + 100" and "next < length (slots r)"
    by simp_all
  with r' show "((r', orgPrefix, matchPattern, templateName, next),
                 (r, orgPrefix, matchPattern, templateName, cursor))
      \<in> measure (\<lambda>(r, orgPrefix, matchPattern, templateName, cursor). length (slots r) - cursor)"
    by (simp add: length_slots_keys)
qed

declare RemoveByTemplate_scan.simps [simp del]

text \<open>
  The in-memory branch: the loop over \<open>MemoryTemplateMap\<close> deletes from
  \<open>MemoryStore\<close> and collects \<open>keysToRemove\<close>; the second loop deletes the
  collected keys from \<open>MemoryTemplateMap\<close>.
\<close>

fun RemoveByTemplate_memory ::
  "string \<Rightarrow> (string \<times> string) list \<Rightarrow> (string \<times> string) list \<Rightarrow> string list
     \<Rightarrow> (string \<times> string) list \<times> string list" where
  "RemoveByTemplate_memory templateName [] store keysToRemove = (store, keysToRemove)"
| "RemoveByTemplate_memory templateName ((configKey, storedTemplateName) # entries) store keysToRemove =
     (if storedTemplateName = templateName
      then RemoveByTemplate_memory templateName entries (AList.delete configKey store)
             (keysToRemove @ [configKey])
      else RemoveByTemplate_memory templateName entries store keysToRemove)"

fun delete_keys :: "string list \<Rightarrow> (string \<times> string) list \<Rightarrow> (string \<times> string) list" where
  "delete_keys [] m = m"
| "delete_keys (key # keys) m = delete_keys keys (AList.delete key m)"

definition RemoveByTemplate :: "Storage \<Rightarrow> string \<Rightarrow> error option \<times> Storage" where
  "RemoveByTemplate s templateName =
     (if UseRedis s then
        (let orgPrefix = Sprintf ''{%s}:'' [Organization s];
             matchPattern = Sprintf ''%s*'' [orgPrefix]
         in case RemoveByTemplate_scan (RedisStore s) orgPrefix matchPattern templateName 0 of
              (err, r) \<Rightarrow> (err, s\<lparr>RedisStore := r\<rparr>))
      else
        (case RemoveByTemplate_memory templateName (MemoryTemplateMap s) (MemoryStore s) [] of
           (store, keysToRemove) \<Rightarrow>
             (None, s\<lparr>MemoryStore := store,
                      MemoryTemplateMap := delete_keys keysToRemove (MemoryTemplateMap s)\<rparr>)))"

subsection \<open>GetAll\<close>

function GetAll_scan :: "redis \<Rightarrow> string \<Rightarrow> string \<Rightarrow> nat \<Rightarrow> string list \<Rightarrow> error + string list" where
  "GetAll_scan r orgPrefix match cursor result =
     (case redis_Scan r cursor match 100 of
        Inl err \<Rightarrow> Inl err
      | Inr (ks, next) \<Rightarrow>
          let result' = result @ map (\<lambda>k. TrimPrefix k orgPrefix) ks in
          if next = 0 then Inr result'
          else GetAll_scan r orgPrefix match next result')"
  by pat_completeness auto
termination
proof (relation "measure (\<lambda>(r, orgPrefix, match, cursor, result). length (slots r) - cursor)")
  show "wf (measure (\<lambda>(r, orgPrefix, match, cursor, result). length (slots r) - cursor))"
    by simp
next
  fix r :: redis and orgPrefix match :: string and cursor :: nat and result result' :: "string list"
    and page :: "string list \<times> nat" and ks :: "string list" and "next" :: nat
  assume scan: "redis_Scan r cursor match 100 = Inr page"
    and page: "(ks, next) = page"
    and more: "next \<noteq> 0"
  from scan page have "redis_Scan r cursor match 100 = Inr (ks, next)"
    by simp
  from redis_Scan_next [OF this more] have "next = cursor + 100" and "next < length (slots r)"
    by simp_all
  then show "((r, orgPrefix, match, next, result'), (r, orgPrefix, match, cursor, result))
      \<in> measure (\<lambda>(r, orgPrefix, match, cursor, result). length (slots r) - cursor)"
    by simp
qed

declare GetAll_scan.simps [simp del]

definition GetAll :: "Storage \<Rightarrow> error + string list" where
  "GetAll s =
     (let result = [];
          orgPrefix = Sprintf ''{%s}:'' [Organization s]
      in if UseRedis s then
           (let match = Sprintf ''%s*'' [orgPrefix]
            in GetAll_scan (RedisStore s) orgPrefix match 0 result)
         else Inr (result @ map (\<lambda>(k, v). TrimPrefix k orgPrefix) (MemoryStore s)))"

subsection \<open>Sequences of store operations\<close>

datatype operation =
    OpSet string string
  | OpSetWithTemplate string string string
  | OpRemoveByTemplate string

fun apply_operation :: "Storage \<Rightarrow> operation \<Rightarrow> error option \<times> Storage" where
  "apply_operation s (OpSet id' content) = Set s id' content"
| "apply_operation s (OpSetWithTemplate id' content templateName) =
     SetWithTemplate s id' content templateName"
| "apply_operation s (OpRemoveByTemplate templateName) = RemoveByTemplate s templateName"

text \<open>The store after a sequence of calls; a call that returns an error leaves the
  store as far as it got, and the caller goes on.\<close>

fun run_operations :: "Storage \<Rightarrow> operation list \<Rightarrow> Storage" where
  "run_operations s [] = s"
| "run_operations s (operation # operations) =
     run_operations (snd (apply_operation s operation)) operations"

section \<open>Templates\<close>

text \<open>
  What \<open>LoadTemplates\<close> reads from outside the program: \<open>Glob dir pattern\<close> is
  \<open>filepath.Glob(filepath.Join(dir, pattern))\<close>, \<open>ReadFile\<close> is
  \<open>ioutil.ReadFile\<close>, and \<open>Parse name text\<close> is \<open>template.New(name).Parse(text)\<close>
  with the template engine's parsed template as an opaque value.
\<close>

record 'tmpl world =
  Glob :: "string \<Rightarrow> string \<Rightarrow> error + string list"
  ReadFile :: "string \<Rightarrow> error + string"
  Parse :: "string \<Rightarrow> string \<Rightarrow> error + 'tmpl"

text \<open>The package-level variables.\<close>

record 'tmpl globals =
  templates :: "(string \<times> 'tmpl) list"
  globalStorage :: "Storage option"
  configFolder :: string

definition currentTemplates :: "string list \<Rightarrow> string list" where
  "currentTemplates files = map (\<lambda>file. TrimSuffix (Base file) ''.conf.tmpl'') files"

definition templatesToRemove :: "(string \<times> 'tmpl) list \<Rightarrow> string list \<Rightarrow> string list" where
  "templatesToRemove tmpls current = filter (\<lambda>templateName. templateName \<notin> set current) (map fst tmpls)"

text \<open>The removal loop: the template leaves the map, and its configs leave the
  store when there is one (an error of \<open>RemoveByTemplate\<close> is only logged).\<close>

fun remove_templates :: "'tmpl globals \<Rightarrow> string list \<Rightarrow> 'tmpl globals" where
  "remove_templates g [] = g"
| "remove_templates g (templateName # names) =
     remove_templates
       (g\<lparr>templates := AList.delete templateName (templates g),
          globalStorage :=
            (case globalStorage g of
               None \<Rightarrow> None
             | Some storage \<Rightarrow> Some (snd (RemoveByTemplate storage templateName)))\<rparr>)
       names"

text \<open>The loading loop: it returns at the first file that cannot be read or parsed,
  with the templates of the files before it already stored.\<close>

fun load_templates ::
  "'tmpl world \<Rightarrow> (string \<times> 'tmpl) list \<Rightarrow> string list \<Rightarrow> error option \<times> (string \<times> 'tmpl) list" where
  "load_templates w tmpls [] = (None, tmpls)"
| "load_templates w tmpls (file # files) =
     (case ReadFile w file of
        Inl err \<Rightarrow> (Some err, tmpls)
      | Inr content \<Rightarrow>
          let fullName = Base file in
          (case Parse w fullName content of
             Inl err \<Rightarrow> (Some err, tmpls)
           | Inr tmpl \<Rightarrow>
               let trimmedName = TrimSuffix fullName ''.conf.tmpl''
               in load_templates w (AList.update trimmedName tmpl tmpls) files))"

definition LoadTemplates :: "'tmpl world \<Rightarrow> string \<Rightarrow> 'tmpl globals \<Rightarrow> error option \<times> 'tmpl globals" where
  "LoadTemplates w path g0 =
     (let g = g0\<lparr>configFolder := path\<rparr> in
      case Glob w path ''*.conf.tmpl'' of
        Inl err \<Rightarrow> (Some err, g)
      | Inr files \<Rightarrow>
          let g' = remove_templates g (templatesToRemove (templates g) (currentTemplates files))
          in case load_templates w (templates g') files of
               (err, tmpls) \<Rightarrow> (err, g'\<lparr>templates := tmpls\<rparr>))"

text \<open>The names a reload from state \<open>g\<close> removes (none when the directory cannot
  be listed: the call returns before it looks).\<close>

definition removedNames :: "'tmpl world \<Rightarrow> string \<Rightarrow> 'tmpl globals \<Rightarrow> string list" where
  "removedNames w path g =
     (case Glob w path ''*.conf.tmpl'' of
        Inl err \<Rightarrow> []
      | Inr files \<Rightarrow> templatesToRemove (templates g) (currentTemplates files))"

section \<open>Stores and predicates the statements use\<close>

text \<open>A server that holds nothing and rejects nothing, and the store \<open>InitStorage\<close>
  builds on it for an organization when \<open>REDIS_TTL\<close> is not set.\<close>

definition empty_server :: redis where
  "empty_server = \<lparr>slots = [], rejects = (\<lambda>c. False)\<rparr>"

definition remote_store :: "string \<Rightarrow> Storage" where
  "remote_store org =
     \<lparr>UseRedis = True, MemoryStore = [], MemoryTemplateMap = [],
      RedisStore = empty_server, Organization = org, TTL = 259200 * Second\<rparr>"

definition memory_store :: "string \<Rightarrow> Storage" where
  "memory_store org =
     \<lparr>UseRedis = False, MemoryStore = [], MemoryTemplateMap = [],
      RedisStore = nil_client, Organization = org, TTL = 0\<rparr>"

definition reliable :: "redis \<Rightarrow> bool" where
  "reliable r = (\<forall>c. \<not> rejects r c)"

definition succeeds :: "error + 'a \<Rightarrow> bool" where
  "succeeds res = (case res of Inl err \<Rightarrow> False | Inr v \<Rightarrow> True)"

text \<open>The keys \<open>RemoveByTemplate\<close> removes from both maps of an in-memory store.\<close>

definition removed_keys :: "Storage \<Rightarrow> string \<Rightarrow> string list" where
  "removed_keys s T = map fst (filter (\<lambda>e. snd e = T) (MemoryTemplateMap s))"

text \<open>
  Template directories for the statements: in both, the directory \<open>conf\<close> holds
  \<open>a.conf.tmpl\<close> and \<open>b.conf.tmpl\<close>; a parsed template is its text, and the text
  \<open>{{\<close> does not parse. In \<open>example_world\<close> that is what \<open>b.conf.tmpl\<close> holds.
\<close>

definition good_world :: "string world" where
  "good_world =
     \<lparr>Glob = (\<lambda>dir pattern. Inr [''conf/a.conf.tmpl'', ''conf/b.conf.tmpl'']),
      ReadFile = (\<lambda>f. if f = ''conf/a.conf.tmpl'' then Inr ''alpha v2''
                       else if f = ''conf/b.conf.tmpl'' then Inr ''beta v1''
                       else Inl (ReadError f)),
      Parse = (\<lambda>name text. if text = ''{{'' then Inl (TemplateParseError name) else Inr text)\<rparr>"

definition example_world :: "string world" where
  "example_world =
     \<lparr>Glob = (\<lambda>dir pattern. Inr [''conf/a.conf.tmpl'', ''conf/b.conf.tmpl'']),
      ReadFile = (\<lambda>f. if f = ''conf/a.conf.tmpl'' then Inr ''alpha v2''
                       else if f = ''conf/b.conf.tmpl'' then Inr ''{{''
                       else Inl (ReadError f)),
      Parse = (\<lambda>name text. if text = ''{{'' then Inl (TemplateParseError name) else Inr text)\<rparr>"

text \<open>The package-level variables as the source initialises them, and a registry
  that holds the templates \<open>old\<close> and \<open>a\<close> with one config cached from \<open>old\<close>.\<close>

definition initial_globals :: "'tmpl globals" where
  "initial_globals = \<lparr>templates = [], globalStorage = None, configFolder = ''conf''\<rparr>"

definition example_globals :: "string globals" where
  "example_globals =
     \<lparr>templates = [(''old'', ''omega v1''), (''a'', ''alpha v1'')],
      globalStorage = Some (snd (SetWithTemplate (memory_store ''o'') ''cfg1'' ''hello'' ''old'')),
      configFolder = ''conf''\<rparr>"

definition stored :: "'tmpl globals \<Rightarrow> string \<Rightarrow> error + string" where
  "stored g id' =
     (case globalStorage g of
        None \<Rightarrow> Inl (Errorf ''no storage'')
      | Some storage \<Rightarrow> Get storage id')"

text \<open>A file loads when it can be read and its text parses, and \<open>load_error\<close> is
  the error it gives otherwise; a registry is in sync with a directory when every
  template it holds still has its file there.\<close>

definition loads :: "'tmpl world \<Rightarrow> string \<Rightarrow> bool" where
  "loads w file =
     (case ReadFile w file of
        Inl err \<Rightarrow> False
      | Inr content \<Rightarrow> (case Parse w (Base file) content of Inl err \<Rightarrow> False | Inr tmpl \<Rightarrow> True))"

definition load_error :: "'tmpl world \<Rightarrow> string \<Rightarrow> error option" where
  "load_error w file =
     (case ReadFile w file of
        Inl err \<Rightarrow> Some err
      | Inr content \<Rightarrow> (case Parse w (Base file) content of Inl err \<Rightarrow> Some err | Inr tmpl \<Rightarrow> None))"

definition in_sync :: "'tmpl world \<Rightarrow> string \<Rightarrow> 'tmpl globals \<Rightarrow> bool" where
  "in_sync w path g =
     (case Glob w path ''*.conf.tmpl'' of
        Inl err \<Rightarrow> True
      | Inr files \<Rightarrow> list_all (\<lambda>name. name \<in> set (currentTemplates files)) (map fst (templates g)))"

text \<open>\<open>parsed w file\<close> is the template of a file that loads, and \<open>files_named\<close>
  picks the files of a list that carry a given template name.\<close>

definition parsed :: "'tmpl world \<Rightarrow> string \<Rightarrow> 'tmpl option" where
  "parsed w file =
     (case ReadFile w file of
        Inl err \<Rightarrow> None
      | Inr content \<Rightarrow> (case Parse w (Base file) content of Inl err \<Rightarrow> None | Inr tmpl \<Rightarrow> Some tmpl))"

definition files_named :: "string \<Rightarrow> string list \<Rightarrow> string list" where
  "files_named name files = filter (\<lambda>file. TrimSuffix (Base file) ''.conf.tmpl'' = name) files"

text \<open>An environment that selects the remote backend and sets \<open>REDIS_TTL\<close> to a
  text that is no number.\<close>

definition example_env :: env where
  "example_env =
     \<lparr>Getenv = (\<lambda>name. if name = ''ORG_NAME'' then ''o''
                       else if name = ''USE_REDIS'' then ''true''
                       else if name = ''REDIS_URL'' then ''redis://localhost:6379''
                       else if name = ''REDIS_TTL'' then ''3 days''
                       else []),
      ParseURL = (\<lambda>url. Inr empty_server)\<rparr>"

text \<open>
  An environment whose \<open>REDIS_TTL\<close> starts with twenty digits, more than a 64-bit
  integer holds, and ends with a letter.
\<close>

definition overflow_env :: env where
  "overflow_env =
     \<lparr>Getenv = (\<lambda>name. if name = ''ORG_NAME'' then ''o''
                       else if name = ''USE_REDIS'' then ''true''
                       else if name = ''REDIS_URL'' then ''redis://localhost:6379''
                       else if name = ''REDIS_TTL'' then ''99999999999999999999x''
                       else []),
      ParseURL = (\<lambda>url. Inr empty_server)\<rparr>"

text \<open>
  A valid integer, in the words of the claims: an optional sign and one or more
  decimal digits, denoting a number that a 64-bit \<open>int\<close> holds. \<open>positive_overflow\<close>
  singles out the texts without a minus sign whose leading digits already exceed 64
  bits, or that consist of digits only and denote a number above the largest \<open>int\<close>.
\<close>

definition unsigned :: "string \<Rightarrow> string" where
  "unsigned s = (if s \<noteq> [] \<and> (hd s = CHR ''-'' \<or> hd s = CHR ''+'') then tl s else s)"

definition valid_integer :: "string \<Rightarrow> bool" where
  "valid_integer s =
     (unsigned s \<noteq> [] \<and> list_all is_digit (unsigned s) \<and>
      (if hd s = CHR ''-'' then digits_value 0 (unsigned s) \<le> 9223372036854775808
       else digits_value 0 (unsigned s) \<le> 9223372036854775807))"

definition positive_overflow :: "string \<Rightarrow> bool" where
  "positive_overflow s =
     (hd s \<noteq> CHR ''-'' \<and>
      (18446744073709551615 < digits_value 0 (takeWhile is_digit (unsigned s)) \<or>
       list_all is_digit (unsigned s) \<and> 9223372036854775808 \<le> digits_value 0 (unsigned s)))"

text \<open>
  \<open>glob_free\<close>: a text without any of the bytes \<open>*\<close>, \<open>?\<close>, \<open>[\<close> and backslash, which a
  scan pattern does not take literally. \<open>reach org\<close>: the keys that a store of the
  organization \<open>org\<close> can write or delete, those under its prefix and those its scan
  pattern matches.
\<close>

definition glob_free :: "string \<Rightarrow> bool" where
  "glob_free s =
     list_all (\<lambda>c. c \<noteq> CHR ''*'' \<and> c \<noteq> CHR ''?'' \<and> c \<noteq> CHR ''['' \<and> c \<noteq> CHR 0x5C) s"

definition reach :: "string \<Rightarrow> string \<Rightarrow> bool" where
  "reach org key =
     (prefix (''{'' @ org @ ''}:'') key \<or> scan_match ((''{'' @ org @ ''}:'') @ ''*'') key)"

text \<open>\<open>changes_only D r r'\<close>: the server \<open>r'\<close> differs from \<open>r\<close> at most in keys
  that satisfy \<open>D\<close>: it rejects the same commands, every other key reads the
  same, and a scan whose pattern matches no key of \<open>D\<close> lists the same keys.\<close>

definition changes_only :: "(string \<Rightarrow> bool) \<Rightarrow> redis \<Rightarrow> redis \<Rightarrow> bool" where
  "changes_only D r r' =
     (rejects r' = rejects r \<and>
      (\<forall>k. \<not> D k \<longrightarrow> live r' k = live r k) \<and>
      (\<forall>pattern. (\<forall>k. scan_match pattern k \<longrightarrow> \<not> D k) \<longrightarrow>
         page_keys pattern (slots r') = page_keys pattern (slots r)))"

text \<open>\<open>shrinks r r'\<close>: every key that reads in \<open>r'\<close> read the same in \<open>r\<close> (keys
  were deleted at most); \<open>present r k\<close>: the key exists.\<close>

definition shrinks :: "redis \<Rightarrow> redis \<Rightarrow> bool" where
  "shrinks r r' = (\<forall>k e. live r' k = Some e \<longrightarrow> live r k = Some e)"

definition present :: "redis \<Rightarrow> string \<Rightarrow> bool" where
  "present r k = (live r k \<noteq> None)"

text \<open>
  Provenance consistency at an id: if \<open>Get\<close> succeeds, so does \<open>GetTemplate\<close>. A
  remote store is dependable when its server rejects no command and its TTL is
  positive; on a remote store the ids that do not begin with \<open>template:\<close> are plain
  (the others have their artifact under a key of the provenance schema).
\<close>

definition consistent :: "Storage \<Rightarrow> string \<Rightarrow> bool" where
  "consistent s id' = (succeeds (Get s id') \<longrightarrow> succeeds (GetTemplate s id'))"

definition dependable :: "Storage \<Rightarrow> bool" where
  "dependable s = (UseRedis s \<longrightarrow> reliable (RedisStore s) \<and> 0 < sint (TTL s))"

definition plain_id :: "Storage \<Rightarrow> string \<Rightarrow> bool" where
  "plain_id s id' = (UseRedis s \<longrightarrow> \<not> prefix ''template:'' id')"

text \<open>A server that holds nothing and fails every \<open>EXPIRE\<close>.\<close>

definition expire_failing_server :: redis where
  "expire_failing_server =
     \<lparr>slots = [], rejects = (\<lambda>c. case c of EXPIRE key expiration \<Rightarrow> True | _ \<Rightarrow> False)\<rparr>"

section \<open>Keys\<close>

lemma Sprintf_key: "Sprintf ''{%s}:%s'' [org, id'] = ''{'' @ org @ ''}:'' @ id'"
  by simp

lemma Sprintf_templateKey:
  "Sprintf ''{%s}:template:%s'' [org, id'] = ''{'' @ org @ ''}:template:'' @ id'"
  by simp

lemma Sprintf_orgPrefix: "Sprintf ''{%s}:'' [org] = ''{'' @ org @ ''}:''"
  by simp

lemma Sprintf_match: "Sprintf ''%s*'' [p] = p @ ''*''"
  by simp

lemma Sprintf_scan_templateKey: "Sprintf ''%s:template:%s'' [p, k] = p @ '':template:'' @ k"
  by simp

lemmas eval_defs =
  SetWithTemplate_def Set_def remote_store_def memory_store_def empty_server_def
  redis_Set_def redis_Expire_def redis_Get_def redis_Del_def redis_Scan_def
  live_def Second_def scan_match_def skip_stars_def TrimPrefix_def HasPrefix_def
  RemoveByTemplate_def RemoveByTemplate_scan.simps RemoveByTemplate_templateKey_def
  Get_def GetTemplate_def GetAll_def GetAll_scan.simps

section \<open>The in-memory backend\<close>

lemma map_of_delete_keys:
  "map_of (delete_keys keys m) k = (if k \<in> set keys then None else map_of m k)"
  by (induction keys arbitrary: m) (auto simp: delete_conv')

lemma RemoveByTemplate_memory_eq:
  "RemoveByTemplate_memory T entries store acc =
     (delete_keys (map fst (filter (\<lambda>e. snd e = T) entries)) store,
      acc @ map fst (filter (\<lambda>e. snd e = T) entries))"
  by (induction T entries store acc rule: RemoveByTemplate_memory.induct) auto

lemma RemoveByTemplate_memory_store:
  "\<not> UseRedis s \<Longrightarrow>
   map_of (MemoryStore (snd (RemoveByTemplate s T))) k =
     (if k \<in> set (removed_keys s T) then None else map_of (MemoryStore s) k)"
  by (simp add: RemoveByTemplate_def RemoveByTemplate_memory_eq map_of_delete_keys removed_keys_def)

lemma RemoveByTemplate_memory_map:
  "\<not> UseRedis s \<Longrightarrow>
   map_of (MemoryTemplateMap (snd (RemoveByTemplate s T))) k =
     (if k \<in> set (removed_keys s T) then None else map_of (MemoryTemplateMap s) k)"
  by (simp add: RemoveByTemplate_def RemoveByTemplate_memory_eq map_of_delete_keys removed_keys_def)

lemma RemoveByTemplate_memory_frame:
  "\<not> UseRedis s \<Longrightarrow>
   UseRedis (snd (RemoveByTemplate s T)) = UseRedis s \<and>
   Organization (snd (RemoveByTemplate s T)) = Organization s \<and>
   fst (RemoveByTemplate s T) = None"
  by (simp add: RemoveByTemplate_def split: prod.splits)

lemma removed_keys_of_entry:
  "map_of (MemoryTemplateMap s) k = Some T \<Longrightarrow> k \<in> set (removed_keys s T)"
  by (force simp: removed_keys_def dest: map_of_SomeD)

lemma removed_keys_distinct:
  "distinct (map fst (MemoryTemplateMap s)) \<Longrightarrow> k \<in> set (removed_keys s T) \<Longrightarrow>
   map_of (MemoryTemplateMap s) k = Some T"
  by (auto simp: removed_keys_def)

text \<open>
  Cascade completeness in memory: an artifact whose recorded template is \<open>T\<close> is gone,
  with its provenance, after \<open>RemoveByTemplate(T)\<close>, which always returns success.
\<close>

lemma memory_cascade_complete:
  assumes "\<not> UseRedis s" and "GetTemplate s id' = Inr T"
  shows "fst (RemoveByTemplate s T) = None \<and>
     Get (snd (RemoveByTemplate s T)) id' = Inl (Errorf (''Key (id) does not exist: '' @ id')) \<and>
     GetTemplate (snd (RemoveByTemplate s T)) id' =
       Inl (Errorf (''Template information not found for config: '' @ id'))"
proof -
  from assms have "map_of (MemoryTemplateMap s) (Sprintf ''{%s}:%s'' [Organization s, id']) = Some T"
    by (auto simp: GetTemplate_def split: option.splits)
  then have "Sprintf ''{%s}:%s'' [Organization s, id'] \<in> set (removed_keys s T)"
    by (rule removed_keys_of_entry)
  with assms(1) show ?thesis
    using RemoveByTemplate_memory_frame [OF assms(1), of T]
    by (simp add: Get_def GetTemplate_def RemoveByTemplate_memory_store
          RemoveByTemplate_memory_map del: Sprintf.simps) simp
qed

text \<open>
  Cascade precision in memory (the map has one entry per key, as a Go map has): an id
  whose recorded template is not \<open>T\<close> reads the same before and after.
\<close>

lemma memory_cascade_precise:
  assumes "\<not> UseRedis s" and "distinct (map fst (MemoryTemplateMap s))"
    and "GetTemplate s id' \<noteq> Inr T"
  shows "Get (snd (RemoveByTemplate s T)) id' = Get s id' \<and>
     GetTemplate (snd (RemoveByTemplate s T)) id' = GetTemplate s id'"
proof -
  from assms(1,3) have "map_of (MemoryTemplateMap s) (Sprintf ''{%s}:%s'' [Organization s, id']) \<noteq> Some T"
    by (auto simp: GetTemplate_def split: option.splits)
  with assms(2) have "Sprintf ''{%s}:%s'' [Organization s, id'] \<notin> set (removed_keys s T)"
    using removed_keys_distinct by blast
  with assms(1) show ?thesis
    using RemoveByTemplate_memory_frame [OF assms(1), of T]
    by (simp add: Get_def GetTemplate_def RemoveByTemplate_memory_store
          RemoveByTemplate_memory_map del: Sprintf.simps)
qed

text \<open>
  \<open>GetAll\<close> in memory, when every stored key carries the store's prefix (as every key
  this store wrote does): the ids listed are exactly those \<open>Get\<close> finds.
\<close>

lemma memory_GetAll:
  assumes "\<not> UseRedis s"
    and "\<forall>k \<in> fst ` set (MemoryStore s). HasPrefix k (Sprintf ''{%s}:'' [Organization s])"
  shows "\<exists>ids. GetAll s = Inr ids \<and> set ids = {id'. \<exists>content. Get s id' = Inr content}"
proof -
  let ?P = "''{'' @ Organization s @ ''}:''"
  have ids: "GetAll s = Inr (map (\<lambda>(k, v). TrimPrefix k ?P) (MemoryStore s))"
    using assms(1) by (simp add: GetAll_def)
  have "set (map (\<lambda>(k, v). TrimPrefix k ?P) (MemoryStore s)) = {id'. \<exists>content. Get s id' = Inr content}"
  proof (intro set_eqI iffI)
    fix x assume "x \<in> set (map (\<lambda>(k, v). TrimPrefix k ?P) (MemoryStore s))"
    then obtain k v where kv: "(k, v) \<in> set (MemoryStore s)" and x: "x = TrimPrefix k ?P"
      by auto
    with assms(2) have "prefix ?P k"
      by (force simp: HasPrefix_def)
    with x have "k = ?P @ x"
      by (auto simp: TrimPrefix_def HasPrefix_def prefix_def)
    moreover from kv have "map_of (MemoryStore s) k \<noteq> None"
      by (metis map_of_eq_None_iff fst_conv image_eqI)
    ultimately show "x \<in> {id'. \<exists>content. Get s id' = Inr content}"
      using assms(1) by (auto simp: Get_def)
  next
    fix x assume "x \<in> {id'. \<exists>content. Get s id' = Inr content}"
    then obtain c where "map_of (MemoryStore s) (?P @ x) = Some c"
      using assms(1) by (auto simp: Get_def split: option.splits)
    then have "(?P @ x, c) \<in> set (MemoryStore s)"
      by (rule map_of_SomeD)
    moreover have "TrimPrefix (?P @ x) ?P = x"
      by (simp add: TrimPrefix_def HasPrefix_def)
    ultimately show "x \<in> set (map (\<lambda>(k, v). TrimPrefix k ?P) (MemoryStore s))"
      by force
  qed
  with ids show ?thesis
    by simp
qed

section \<open>The remote backend: the key RemoveByTemplate reads\<close>

text \<open>
  C3. Key schema. \<open>SetWithTemplate\<close> writes the provenance of \<open>cfg1\<close> under
  \<open>{o}:template:cfg1\<close> and \<open>GetTemplate\<close> reads that key; \<open>RemoveByTemplate\<close>,
  meeting the artifact key \<open>{o}:cfg1\<close> in its scan, reads \<open>{o}::template:cfg1\<close>
  instead (its \<open>orgPrefix\<close> already ends in the colon its format string adds again).
  The claim says the three keys are the same; here the third differs.
\<close>

theorem RemoveByTemplate_reads_another_key:
  "Sprintf ''{%s}:template:%s'' [''o'', ''cfg1''] = ''{o}:template:cfg1'' \<and>
   RemoveByTemplate_templateKey (Sprintf ''{%s}:'' [''o'']) (Sprintf ''{%s}:%s'' [''o'', ''cfg1''])
     = ''{o}::template:cfg1'' \<and>
   GetTemplate (snd (SetWithTemplate (remote_store ''o'') ''cfg1'' ''hello'' ''a'')) ''cfg1'' = Inr ''a'' \<and>
   redis_Get (RedisStore (snd (SetWithTemplate (remote_store ''o'') ''cfg1'' ''hello'' ''a'')))
     (RemoveByTemplate_templateKey (Sprintf ''{%s}:'' [''o'']) (Sprintf ''{%s}:%s'' [''o'', ''cfg1'']))
     = Inl RedisNil"
  by (simp add: eval_defs)

text \<open>
  C1. Cascade completeness. In memory it holds (\<open>memory_cascade_complete\<close>). On the
  remote backend, an artifact stored for template \<open>a\<close> is still there, with its
  provenance, after \<open>RemoveByTemplate("a")\<close> has returned success: the call looked for
  the provenance under the key of C3 and found none.
\<close>

theorem remote_cascade_leaves_artifact:
  "(case SetWithTemplate (remote_store ''o'') ''cfg1'' ''hello'' ''a'' of
      (err1, s1) \<Rightarrow>
        (case RemoveByTemplate s1 ''a'' of
           (err2, s2) \<Rightarrow>
             err1 = None \<and> GetTemplate s1 ''cfg1'' = Inr ''a'' \<and> err2 = None \<and>
             Get s2 ''cfg1'' = Inr ''hello'' \<and> GetTemplate s2 ''cfg1'' = Inr ''a''))"
  by (simp add: eval_defs)

text \<open>
  C6. Cascade precision. In memory it holds (\<open>memory_cascade_precise\<close>). On the remote
  backend, \<open>cfg2\<close> is stored for template \<open>b\<close>; an artifact with the id
  \<open>:template:cfg2\<close> and the content \<open>a\<close> lies under the key that
  \<open>RemoveByTemplate\<close> takes for the provenance of \<open>cfg2\<close>, and
  \<open>RemoveByTemplate("a")\<close> deletes \<open>cfg2\<close>, whose recorded template is still \<open>b\<close>.
\<close>

theorem remote_cascade_removes_other_template:
  "(case SetWithTemplate (remote_store ''o'') ''cfg2'' ''x'' ''b'' of
      (err1, s1) \<Rightarrow>
        (case Set s1 '':template:cfg2'' ''a'' of
           (err2, s2) \<Rightarrow>
             (case RemoveByTemplate s2 ''a'' of
                (err3, s3) \<Rightarrow>
                  err1 = None \<and> err2 = None \<and> err3 = None \<and>
                  Get s2 ''cfg2'' = Inr ''x'' \<and> GetTemplate s2 ''cfg2'' = Inr ''b'' \<and>
                  Get s3 ''cfg2'' = Inl (Errorf ''Key (id) does not exist: cfg2'') \<and>
                  GetTemplate s3 ''cfg2'' = Inr ''b'')))"
  by (simp add: eval_defs)

section \<open>GetAll on the remote backend\<close>

text \<open>
  C4. \<open>GetAll\<close> lists the artifact ids and nothing else. In memory it does
  (\<open>memory_GetAll\<close>). On the remote backend the scan by the organization's prefix
  also meets the provenance keys, and \<open>GetAll\<close>, unlike \<open>RemoveByTemplate\<close>, does
  not skip them: after one \<open>SetWithTemplate("cfg1", ...)\<close> it returns \<open>cfg1\<close> and
  \<open>template:cfg1\<close>.
\<close>

theorem remote_GetAll_lists_provenance:
  "GetAll (snd (SetWithTemplate (remote_store ''o'') ''cfg1'' ''hello'' ''a''))
     = Inr [''cfg1'', ''template:cfg1''] \<and>
   GetAll (snd (SetWithTemplate (memory_store ''o'') ''cfg1'' ''hello'' ''a'')) = Inr [''cfg1'']"
  by (simp add: eval_defs Let_def)

section \<open>The remote backend: what an operation can change\<close>

lemma changes_only_refl: "changes_only D r r"
  by (simp add: changes_only_def)

lemma changes_only_trans:
  "changes_only D r r' \<Longrightarrow> changes_only D r' r'' \<Longrightarrow> changes_only D r r''"
  by (simp add: changes_only_def)

lemma live_update:
  "live (r\<lparr>slots := AList.update k v (slots r)\<rparr>) k' = (if k' = k then v else live r k')"
  by (cases v) (simp_all add: live_def update_conv')

lemma page_keys_update:
  "\<not> scan_match pattern k \<Longrightarrow> page_keys pattern (AList.update k v sl) = page_keys pattern sl"
proof (induction sl)
  case Nil
  then show ?case by (cases v) simp_all
next
  case (Cons slot sl)
  obtain k' e where slot: "slot = (k', e)" by (cases slot)
  show ?case
    using Cons by (cases e; cases v) (simp_all add: slot)
qed

lemma changes_only_update:
  "D k \<Longrightarrow> changes_only D r (r\<lparr>slots := AList.update k v (slots r)\<rparr>)"
proof -
  assume D: "D k"
  have "page_keys pattern (AList.update k v (slots r)) = page_keys pattern (slots r)"
    if "\<forall>k. scan_match pattern k \<longrightarrow> \<not> D k" for pattern
    using that D by (intro page_keys_update) blast
  with D show ?thesis
    by (auto simp: changes_only_def live_update)
qed

lemma changes_only_Set: "D k \<Longrightarrow> changes_only D r (snd (redis_Set r k val expiration))"
  by (simp add: redis_Set_def Let_def changes_only_refl changes_only_update)

lemma changes_only_Expire: "D k \<Longrightarrow> changes_only D r (snd (redis_Expire r k expiration))"
  by (simp add: redis_Expire_def changes_only_refl changes_only_update split: option.splits)

lemma changes_only_Del: "D k \<Longrightarrow> changes_only D r (snd (redis_Del r k))"
  by (simp add: redis_Del_def changes_only_refl changes_only_update split: option.splits)

lemma changes_only_keys:
  assumes "\<And>c. c \<in> set configKeys \<Longrightarrow> \<not> Contains c '':template:'' \<Longrightarrow> D c"
    and "\<And>c. D (RemoveByTemplate_templateKey orgPrefix c)"
  shows "changes_only D r (RemoveByTemplate_keys r orgPrefix templateName configKeys)"
  using assms(1)
proof (induction configKeys arbitrary: r)
  case Nil
  show ?case by (simp add: changes_only_refl)
next
  case (Cons c cs)
  have rest: "changes_only D r' (RemoveByTemplate_keys r' orgPrefix templateName cs)" for r'
    using Cons by simp
  show ?case
  proof (cases "Contains c '':template:''")
    case True
    then show ?thesis using rest by simp
  next
    case False
    with Cons.prems have "D c" by simp
    then have "changes_only D r (snd (redis_Del r c))"
      by (rule changes_only_Del)
    moreover have "changes_only D (snd (redis_Del r c))
        (snd (redis_Del (snd (redis_Del r c)) (RemoveByTemplate_templateKey orgPrefix c)))"
      using assms(2) by (rule changes_only_Del)
    ultimately have "changes_only D r
        (snd (redis_Del (snd (redis_Del r c)) (RemoveByTemplate_templateKey orgPrefix c)))"
      by (rule changes_only_trans)
    with rest False show ?thesis
      by (auto simp: Let_def split: sum.splits intro: changes_only_trans)
  qed
qed

lemma page_keys_match: "k \<in> set (page_keys pattern page) \<Longrightarrow> scan_match pattern k"
  by (induction pattern page rule: page_keys.induct) (auto split: if_splits)

lemma redis_Scan_match:
  "redis_Scan r cursor pattern count = Inr (keys, next) \<Longrightarrow> k \<in> set keys \<Longrightarrow> scan_match pattern k"
  by (auto simp: redis_Scan_def split: if_splits dest: page_keys_match)

lemma changes_only_scan:
  assumes "\<And>c. scan_match matchPattern c \<Longrightarrow> \<not> Contains c '':template:'' \<Longrightarrow> D c"
    and "\<And>c. D (RemoveByTemplate_templateKey orgPrefix c)"
  shows "changes_only D r (snd (RemoveByTemplate_scan r orgPrefix matchPattern templateName cursor))"
  using assms
proof (induction r orgPrefix matchPattern templateName cursor rule: RemoveByTemplate_scan.induct)
  case (1 r orgPrefix matchPattern templateName cursor)
  show ?case
  proof (cases "redis_Scan r cursor matchPattern 100")
    case (Inl err)
    then show ?thesis
      by (subst RemoveByTemplate_scan.simps) (simp add: changes_only_refl)
  next
    case (Inr page)
    obtain configKeys "next" where page: "page = (configKeys, next)" by (cases page)
    let ?r' = "RemoveByTemplate_keys r orgPrefix templateName configKeys"
    have step: "changes_only D r ?r'"
    proof (rule changes_only_keys)
      fix c assume "c \<in> set configKeys" and "\<not> Contains c '':template:''"
      moreover from this Inr page have "scan_match matchPattern c"
        by (auto dest: redis_Scan_match)
      ultimately show "D c"
        by (intro "1.prems"(1))
    next
      fix c show "D (RemoveByTemplate_templateKey orgPrefix c)"
        by (rule "1.prems"(2))
    qed
    show ?thesis
    proof (cases "next = 0")
      case True
      with Inr page step show ?thesis
        by (subst RemoveByTemplate_scan.simps) simp
    next
      case False
      from "1.IH" [OF Inr page [symmetric] refl False "1.prems"]
      have "changes_only D ?r' (snd (RemoveByTemplate_scan ?r' orgPrefix matchPattern templateName next))" .
      with step have "changes_only D r (snd (RemoveByTemplate_scan ?r' orgPrefix matchPattern templateName next))"
        by (rule changes_only_trans)
      with Inr page False show ?thesis
        by (subst RemoveByTemplate_scan.simps) simp
    qed
  qed
qed

text \<open>A pattern made of a text without glob bytes and a final star is a scan by
  prefix.\<close>

lemma skip_stars_glob_free:
  "glob_free P \<Longrightarrow> skip_stars (P @ ''*'') = [] \<longleftrightarrow> P = []"
  by (cases P) (simp_all add: skip_stars_def glob_free_def)

lemma stringmatchlen_prefix:
  "glob_free P \<Longrightarrow> P \<noteq> [] \<Longrightarrow> stringmatchlen (P @ ''*'') k = prefix P k"
proof (induction P arbitrary: k)
  case Nil
  then show ?case by simp
next
  case (Cons x P)
  have x: "x \<noteq> CHR ''*''" "x \<noteq> CHR ''?''" "x \<noteq> CHR ''[''" "x \<noteq> CHR 0x5C"
    and P: "glob_free P"
    using Cons.prems(1) by (simp_all add: glob_free_def)
  show ?case
  proof (cases k)
    case Nil
    then show ?thesis by simp
  next
    case (Cons c s)
    show ?thesis
    proof (cases "P = []")
      case True
      then show ?thesis
        using x Cons by (cases s) (simp_all add: skip_stars_def)
    next
      case False
      then show ?thesis
        using x Cons P Cons.IH [OF P False, of s] skip_stars_glob_free [OF P]
        by (cases s) simp_all
    qed
  qed
qed

lemma scan_match_prefix:
  "glob_free P \<Longrightarrow> P \<noteq> [] \<Longrightarrow> scan_match (P @ ''*'') k = prefix P k"
  by (simp add: scan_match_def stringmatchlen_prefix)

lemma glob_free_orgPrefix: "glob_free org \<Longrightarrow> glob_free (''{'' @ org @ ''}:'')"
  by (simp add: glob_free_def)

lemma reach_glob_free: "glob_free org \<Longrightarrow> reach org k = prefix (''{'' @ org @ ''}:'') k"
  unfolding reach_def using scan_match_prefix [OF glob_free_orgPrefix, of org k] by simp

lemma changes_only_mono:
  "changes_only D r r' \<Longrightarrow> (\<And>k. D k \<Longrightarrow> D' k) \<Longrightarrow> changes_only D' r r'"
  unfolding changes_only_def by blast

lemma templateKey_prefix: "prefix p (RemoveByTemplate_templateKey p c)"
  by (simp add: RemoveByTemplate_templateKey_def)

lemma SetWithTemplate_remote_stages:
  assumes "UseRedis s"
  shows "snd (SetWithTemplate s id' content templateName) \<in>
     {s\<lparr>RedisStore := snd (redis_Set (RedisStore s) (''{'' @ Organization s @ ''}:'' @ id') content 0)\<rparr>,
      s\<lparr>RedisStore := snd (redis_Expire (snd (redis_Set (RedisStore s) (''{'' @ Organization s @ ''}:'' @ id') content 0))
            (''{'' @ Organization s @ ''}:'' @ id') (TTL s))\<rparr>,
      s\<lparr>RedisStore := snd (redis_Set (snd (redis_Expire (snd (redis_Set (RedisStore s) (''{'' @ Organization s @ ''}:'' @ id') content 0))
            (''{'' @ Organization s @ ''}:'' @ id') (TTL s))) (''{'' @ Organization s @ ''}:template:'' @ id') templateName (TTL s))\<rparr>}"
  unfolding SetWithTemplate_def Let_def Sprintf_key Sprintf_templateKey
  using assms by (simp only: if_True split: prod.splits sum.splits) (simp del: append.simps)

lemma SetWithTemplate_remote:
  assumes "UseRedis s"
  shows "changes_only (prefix (''{'' @ Organization s @ ''}:'')) (RedisStore s)
           (RedisStore (snd (SetWithTemplate s id' content templateName)))"
    and "UseRedis (snd (SetWithTemplate s id' content templateName))"
    and "Organization (snd (SetWithTemplate s id' content templateName)) = Organization s"
    and "TTL (snd (SetWithTemplate s id' content templateName)) = TTL s"
proof -
  let ?D = "prefix (''{'' @ Organization s @ ''}:'')"
  let ?key = "''{'' @ Organization s @ ''}:'' @ id'"
  let ?tkey = "''{'' @ Organization s @ ''}:template:'' @ id'"
  let ?r1 = "snd (redis_Set (RedisStore s) ?key content 0)"
  let ?r2 = "snd (redis_Expire ?r1 ?key (TTL s))"
  let ?r3 = "snd (redis_Set ?r2 ?tkey templateName (TTL s))"
  have D: "?D ?key" "?D ?tkey" by simp_all
  have c1: "changes_only ?D (RedisStore s) ?r1"
    using D(1) by (rule changes_only_Set)
  have "changes_only ?D ?r1 ?r2"
    using D(1) by (rule changes_only_Expire)
  with c1 have c2: "changes_only ?D (RedisStore s) ?r2"
    by (rule changes_only_trans)
  have "changes_only ?D ?r2 ?r3"
    using D(2) by (rule changes_only_Set)
  with c2 have c3: "changes_only ?D (RedisStore s) ?r3"
    by (rule changes_only_trans)
  from SetWithTemplate_remote_stages [OF assms, of id' content templateName]
  have "snd (SetWithTemplate s id' content templateName) = s\<lparr>RedisStore := ?r1\<rparr>
      \<or> snd (SetWithTemplate s id' content templateName) = s\<lparr>RedisStore := ?r2\<rparr>
      \<or> snd (SetWithTemplate s id' content templateName) = s\<lparr>RedisStore := ?r3\<rparr>"
    by blast
  with assms c1 c2 c3
  show "changes_only ?D (RedisStore s) (RedisStore (snd (SetWithTemplate s id' content templateName)))"
    and "UseRedis (snd (SetWithTemplate s id' content templateName))"
    and "Organization (snd (SetWithTemplate s id' content templateName)) = Organization s"
    and "TTL (snd (SetWithTemplate s id' content templateName)) = TTL s"
    by auto
qed

lemma SetWithTemplate_reach:
  assumes "UseRedis s"
  shows "changes_only (reach (Organization s)) (RedisStore s)
           (RedisStore (snd (SetWithTemplate s id' content templateName)))"
  using SetWithTemplate_remote(1) [OF assms]
  by (rule changes_only_mono) (simp add: reach_def)

lemma RemoveByTemplate_remote:
  assumes "UseRedis s"
  shows "changes_only (reach (Organization s)) (RedisStore s)
           (RedisStore (snd (RemoveByTemplate s templateName)))"
    and "UseRedis (snd (RemoveByTemplate s templateName))"
    and "Organization (snd (RemoveByTemplate s templateName)) = Organization s"
    and "TTL (snd (RemoveByTemplate s templateName)) = TTL s"
proof -
  let ?P = "''{'' @ Organization s @ ''}:''"
  have "changes_only (reach (Organization s)) (RedisStore s)
      (snd (RemoveByTemplate_scan (RedisStore s) ?P (?P @ ''*'') templateName 0))"
  proof (rule changes_only_scan)
    show "reach (Organization s) c" if "scan_match (?P @ ''*'') c" for c
      using that by (simp add: reach_def)
    show "reach (Organization s) (RemoveByTemplate_templateKey ?P c)" for c
      using templateKey_prefix [of ?P c] by (simp only: reach_def simp_thms)
  qed
  with assms
  show "changes_only (reach (Organization s)) (RedisStore s)
      (RedisStore (snd (RemoveByTemplate s templateName)))"
    by (simp add: RemoveByTemplate_def split_beta Let_def)
  from assms show "UseRedis (snd (RemoveByTemplate s templateName))"
    and "Organization (snd (RemoveByTemplate s templateName)) = Organization s"
    and "TTL (snd (RemoveByTemplate s templateName)) = TTL s"
    by (simp_all add: RemoveByTemplate_def split_beta Let_def)
qed

lemma apply_operation_remote:
  assumes "UseRedis s"
  shows "changes_only (reach (Organization s)) (RedisStore s)
           (RedisStore (snd (apply_operation s operation))) \<and>
         UseRedis (snd (apply_operation s operation)) \<and>
         Organization (snd (apply_operation s operation)) = Organization s \<and>
         TTL (snd (apply_operation s operation)) = TTL s"
  using SetWithTemplate_reach [OF assms] SetWithTemplate_remote(2-4) [OF assms]
    RemoveByTemplate_remote [OF assms]
  by (cases operation) (simp_all add: Set_def)

lemma run_operations_remote:
  assumes "UseRedis s"
  shows "changes_only (reach (Organization s)) (RedisStore s)
           (RedisStore (run_operations s operations)) \<and>
         UseRedis (run_operations s operations) \<and>
         Organization (run_operations s operations) = Organization s \<and>
         TTL (run_operations s operations) = TTL s"
  using assms
proof (induction operations arbitrary: s)
  case Nil
  then show ?case by (simp add: changes_only_refl)
next
  case (Cons operation operations)
  note step = apply_operation_remote [OF Cons.prems, of operation]
  from step have "UseRedis (snd (apply_operation s operation))" by simp
  note rest = Cons.IH [OF this]
  let ?s1 = "snd (apply_operation s operation)"
  from step have org: "Organization ?s1 = Organization s" and ttl: "TTL ?s1 = TTL s"
    and c1: "changes_only (reach (Organization s)) (RedisStore s) (RedisStore ?s1)"
    by simp_all
  from rest org have c2: "changes_only (reach (Organization s)) (RedisStore ?s1)
      (RedisStore (run_operations ?s1 operations))"
    by simp
  from c1 c2 have "changes_only (reach (Organization s)) (RedisStore s)
      (RedisStore (run_operations ?s1 operations))"
    by (rule changes_only_trans)
  with rest org ttl show ?case
    by simp
qed

lemma page_keys_append: "page_keys pattern (xs @ ys) = page_keys pattern xs @ page_keys pattern ys"
  by (induction pattern xs rule: page_keys.induct) simp_all

lemma GetAll_scan_reliable:
  assumes "reliable r"
  shows "GetAll_scan r orgPrefix match cursor result =
     Inr (result @ map (\<lambda>k. TrimPrefix k orgPrefix) (page_keys match (drop cursor (slots r))))"
  using assms
proof (induction r orgPrefix match cursor result rule: GetAll_scan.induct)
  case (1 r orgPrefix match cursor result)
  define n :: nat where "n = 100"
  let ?trim = "map (\<lambda>k. TrimPrefix k orgPrefix)"
  let ?page = "page_keys match (take n (drop cursor (slots r)))"
  let ?next = "if cursor + n < length (slots r) then cursor + n else 0"
  have scan: "redis_Scan r cursor match 100 = Inr (?page, ?next)"
    using "1.prems" unfolding n_def redis_Scan_def reliable_def by (simp only: if_False)
  have unfold: "GetAll_scan r orgPrefix match cursor result =
      (if ?next = 0 then Inr (result @ ?trim ?page)
       else GetAll_scan r orgPrefix match ?next (result @ ?trim ?page))"
    by (subst GetAll_scan.simps) (simp only: scan sum.case prod.case Let_def)
  show ?case
  proof (cases "cursor + n < length (slots r)")
    case False
    then have "take n (drop cursor (slots r)) = drop cursor (slots r)"
      by simp
    with False show ?thesis
      unfolding unfold by simp
  next
    case True
    then have nonzero: "?next \<noteq> 0" and "next": "?next = cursor + n"
      by (simp_all add: n_def)
    have "drop cursor (slots r) = take n (drop cursor (slots r)) @ drop n (drop cursor (slots r))"
      by (simp only: append_take_drop_id)
    also have "drop n (drop cursor (slots r)) = drop (cursor + n) (slots r)"
      by (simp add: add.commute)
    finally have "page_keys match (drop cursor (slots r))
        = ?page @ page_keys match (drop (cursor + n) (slots r))"
      by (metis page_keys_append)
    moreover from "1.IH" [OF scan refl refl nonzero "1.prems"]
    have "GetAll_scan r orgPrefix match ?next (result @ ?trim ?page)
        = Inr ((result @ ?trim ?page) @ ?trim (page_keys match (drop ?next (slots r))))" .
    ultimately show ?thesis
      unfolding unfold using True nonzero by (simp add: n_def)
  qed
qed

lemma incomparable_prefix:
  assumes "\<not> prefix p1 p2" and "\<not> prefix p2 p1" and "prefix p2 k"
  shows "\<not> prefix p1 k"
  using assms prefix_same_cases by blast

lemma redis_Get_changes_only:
  "changes_only D r r' \<Longrightarrow> \<not> D k \<Longrightarrow> redis_Get r' k = redis_Get r k"
  by (simp add: changes_only_def redis_Get_def)

lemma braceless_incomparable:
  assumes "O1 \<noteq> O2" and "CHR ''}'' \<notin> set O1" and "CHR ''}'' \<notin> set O2"
  shows "\<not> prefix (Sprintf ''{%s}:'' [O1]) (Sprintf ''{%s}:'' [O2])"
proof
  assume "prefix (Sprintf ''{%s}:'' [O1]) (Sprintf ''{%s}:'' [O2])"
  then have "prefix (O1 @ ''}:'') (O2 @ ''}:'')"
    by simp
  then obtain z where z: "O2 @ ''}:'' = (O1 @ ''}:'') @ z"
    by (auto simp: prefix_def)
  have "takeWhile (\<lambda>c. c \<noteq> CHR ''}'') (O2 @ ''}:'') = O2"
    using assms(3) by (auto simp: takeWhile_tail)
  moreover have "takeWhile (\<lambda>c. c \<noteq> CHR ''}'') ((O1 @ ''}:'') @ z) = O1"
    using assms(2) by (auto simp: takeWhile_tail)
  ultimately show False
    using z assms(1) by simp
qed

text \<open>
  C7. Namespace isolation. The claim is for every pair of distinct organization
  names; it holds when the name of the organization that writes contains none of
  the bytes \<open>*\<close>, \<open>?\<close>, \<open>[\<close> and backslash, which its scan pattern would not take
  literally, and the key prefixes \<open>{O1}:\<close> and \<open>{O2}:\<close> are not prefixes of one
  another (so for distinct names without \<open>}\<close>, \<open>braceless_incomparable\<close>). Then,
  whatever sequence of \<open>Set\<close>, \<open>SetWithTemplate\<close> and \<open>RemoveByTemplate\<close> calls the
  store of that organization runs on a shared server, \<open>Get\<close> and \<open>GetTemplate\<close> of
  the other organization return what they returned before, for every id, and so
  does its \<open>GetAll\<close> when the server rejects no command and the name of the other
  organization contains none of these bytes either. (Two in-memory stores share no
  map.)
\<close>

theorem namespace_isolation:
  assumes "UseRedis s"
    and "glob_free (Organization s)"
    and "\<not> prefix (Sprintf ''{%s}:'' [Organization s]) (Sprintf ''{%s}:'' [other])"
    and "\<not> prefix (Sprintf ''{%s}:'' [other]) (Sprintf ''{%s}:'' [Organization s])"
  shows "Get ((run_operations s operations)\<lparr>Organization := other\<rparr>) id'
           = Get (s\<lparr>Organization := other\<rparr>) id' \<and>
         GetTemplate ((run_operations s operations)\<lparr>Organization := other\<rparr>) id'
           = GetTemplate (s\<lparr>Organization := other\<rparr>) id' \<and>
         (reliable (RedisStore s) \<and> glob_free other \<longrightarrow>
            GetAll ((run_operations s operations)\<lparr>Organization := other\<rparr>)
              = GetAll (s\<lparr>Organization := other\<rparr>))"
proof -
  let ?P1 = "''{'' @ Organization s @ ''}:''"
  let ?P2 = "''{'' @ other @ ''}:''"
  let ?s' = "run_operations s operations"
  from assms(3,4) have inc: "\<not> prefix ?P1 ?P2" "\<not> prefix ?P2 ?P1"
    by simp_all
  have outside: "\<not> prefix ?P1 k" if "prefix ?P2 k" for k
    using inc that by (rule incomparable_prefix)
  note ops = run_operations_remote [OF assms(1), of operations]
  from ops have remote: "UseRedis ?s'"
    by simp
  from ops have "changes_only (reach (Organization s)) (RedisStore s) (RedisStore ?s')"
    by simp
  then have frame: "changes_only (prefix ?P1) (RedisStore s) (RedisStore ?s')"
    by (rule changes_only_mono) (simp only: reach_glob_free [OF assms(2)])
  have get: "redis_Get (RedisStore ?s') (?P2 @ k) = redis_Get (RedisStore s) (?P2 @ k)" for k
  proof -
    have "\<not> prefix ?P1 (?P2 @ k)"
      by (rule outside) (rule prefixI, rule refl)
    with frame show ?thesis
      by (rule redis_Get_changes_only)
  qed
  have "Get (?s'\<lparr>Organization := other\<rparr>) id' = Get (s\<lparr>Organization := other\<rparr>) id'"
    using assms(1) remote get [of id'] by (simp add: Get_def)
  moreover
  have "GetTemplate (?s'\<lparr>Organization := other\<rparr>) id' = GetTemplate (s\<lparr>Organization := other\<rparr>) id'"
    using assms(1) remote get [of "''template:'' @ id'"] by (simp add: GetTemplate_def)
  moreover
  have "GetAll (?s'\<lparr>Organization := other\<rparr>) = GetAll (s\<lparr>Organization := other\<rparr>)"
    if rel: "reliable (RedisStore s)" and other: "glob_free other"
  proof -
    from frame rel have rel': "reliable (RedisStore ?s')"
      by (simp add: changes_only_def reliable_def)
    have "scan_match (?P2 @ ''*'') k = prefix ?P2 k" for k
      by (rule scan_match_prefix [OF glob_free_orgPrefix [OF other]]) simp
    then have "\<forall>k. scan_match (?P2 @ ''*'') k \<longrightarrow> \<not> prefix ?P1 k"
      using outside by blast
    with frame have "page_keys (?P2 @ ''*'') (slots (RedisStore ?s')) = page_keys (?P2 @ ''*'') (slots (RedisStore s))"
      unfolding changes_only_def by blast
    with assms(1) remote rel rel' show ?thesis
      by (simp add: GetAll_def GetAll_scan_reliable)
  qed
  ultimately show ?thesis
    by blast
qed

theorem namespace_isolation_witness:
  "UseRedis (remote_store ''acme'') \<and>
   glob_free (Organization (remote_store ''acme'')) \<and>
   \<not> prefix (Sprintf ''{%s}:'' [Organization (remote_store ''acme'')]) (Sprintf ''{%s}:'' [''globex'']) \<and>
   \<not> prefix (Sprintf ''{%s}:'' [''globex'']) (Sprintf ''{%s}:'' [Organization (remote_store ''acme'')]) \<and>
   reliable (RedisStore (remote_store ''acme'')) \<and> glob_free ''globex'' \<and>
   Get ((run_operations (remote_store ''acme'') [OpSetWithTemplate ''cfg1'' ''hello'' ''a''])
          \<lparr>Organization := ''globex''\<rparr>) ''cfg1''
     = Get ((remote_store ''acme'')\<lparr>Organization := ''globex''\<rparr>) ''cfg1'' \<and>
   GetAll ((run_operations (remote_store ''acme'') [OpSetWithTemplate ''cfg1'' ''hello'' ''a''])
          \<lparr>Organization := ''globex''\<rparr>)
     = GetAll ((remote_store ''acme'')\<lparr>Organization := ''globex''\<rparr>)"
proof -
  have h1: "UseRedis (remote_store ''acme'')"
    and h2: "glob_free (Organization (remote_store ''acme''))"
    and h3: "\<not> prefix (Sprintf ''{%s}:'' [Organization (remote_store ''acme'')]) (Sprintf ''{%s}:'' [''globex''])"
    and h4: "\<not> prefix (Sprintf ''{%s}:'' [''globex'']) (Sprintf ''{%s}:'' [Organization (remote_store ''acme'')])"
    and h5: "reliable (RedisStore (remote_store ''acme''))"
    and h6: "glob_free ''globex''"
    by (simp_all add: remote_store_def empty_server_def reliable_def glob_free_def)
  from namespace_isolation [OF h1 h2 h3 h4, of "[OpSetWithTemplate ''cfg1'' ''hello'' ''a'']" "''cfg1''"]
    h1 h2 h3 h4 h5 h6
  show ?thesis
    by blast
qed

text \<open>
  The claim fails for the organizations \<open>a}:b\<close> and \<open>a\<close>: the key of \<open>c\<close> under the
  first is the key of \<open>b}:c\<close> under the second, which reads the first one's content.
\<close>

theorem organizations_collide:
  "Get ((remote_store ''a}:b'')\<lparr>Organization := ''a''\<rparr>) ''b}:c''
     = Inl (Errorf ''Key (id) does not exist: b}:c'') \<and>
   fst (SetWithTemplate (remote_store ''a}:b'') ''c'' ''secret'' ''t'') = None \<and>
   Get ((snd (SetWithTemplate (remote_store ''a}:b'') ''c'' ''secret'' ''t''))\<lparr>Organization := ''a''\<rparr>) ''b}:c''
     = Inr ''secret''"
  by (simp add: eval_defs)

text \<open>
  It also fails for the organizations \<open>ab\<close> and \<open>a?\<close>, whose key prefixes are not
  prefixes of one another: the scan pattern \<open>{a?}:*\<close> of the second matches the keys
  of the first. \<open>GetAll\<close> of \<open>a?\<close> lists them, and once \<open>a?\<close> has stored any content
  \<open>t\<close> under the id \<open>:template:{ab}:cfg1\<close>, its \<open>RemoveByTemplate("t")\<close> deletes the
  artifact \<open>cfg1\<close> of \<open>ab\<close>.
\<close>

lemma glob_organizations_collide:
  "\<not> prefix (Sprintf ''{%s}:'' [''ab'']) (Sprintf ''{%s}:'' [''a?'']) \<and>
   \<not> prefix (Sprintf ''{%s}:'' [''a?'']) (Sprintf ''{%s}:'' [''ab'']) \<and>
   GetAll ((snd (SetWithTemplate (remote_store ''ab'') ''cfg1'' ''hello'' ''a''))\<lparr>Organization := ''a?''\<rparr>)
     = Inr [''{ab}:cfg1'', ''{ab}:template:cfg1''] \<and>
   Get ((snd (Set ((snd (SetWithTemplate (remote_store ''ab'') ''cfg1'' ''hello'' ''a''))
          \<lparr>Organization := ''a?''\<rparr>) '':template:{ab}:cfg1'' ''t''))\<lparr>Organization := ''ab''\<rparr>) ''cfg1''
     = Inr ''hello'' \<and>
   Get ((snd (RemoveByTemplate (snd (Set ((snd (SetWithTemplate (remote_store ''ab'') ''cfg1'' ''hello'' ''a''))
          \<lparr>Organization := ''a?''\<rparr>) '':template:{ab}:cfg1'' ''t'')) ''t''))\<lparr>Organization := ''ab''\<rparr>) ''cfg1''
     = Inl (Errorf ''Key (id) does not exist: cfg1'')"
  by (simp add: eval_defs Let_def)

section \<open>Provenance consistency\<close>

lemma shrinks_refl: "shrinks r r"
  by (simp add: shrinks_def)

lemma shrinks_trans: "shrinks r r' \<Longrightarrow> shrinks r' r'' \<Longrightarrow> shrinks r r''"
  by (simp add: shrinks_def)

lemma shrinks_Del: "shrinks r (snd (redis_Del r k))"
  by (simp add: redis_Del_def shrinks_def live_update split: option.splits)

lemma shrinks_keys: "shrinks r (RemoveByTemplate_keys r orgPrefix templateName configKeys)"
proof (induction configKeys arbitrary: r)
  case Nil
  show ?case by (simp add: shrinks_refl)
next
  case (Cons c cs)
  have "shrinks r (snd (redis_Del (snd (redis_Del r c)) (RemoveByTemplate_templateKey orgPrefix c)))"
    using shrinks_Del shrinks_Del by (rule shrinks_trans)
  then have "shrinks r (RemoveByTemplate_keys
      (snd (redis_Del (snd (redis_Del r c)) (RemoveByTemplate_templateKey orgPrefix c)))
      orgPrefix templateName cs)"
    using Cons.IH by (rule shrinks_trans)
  with Cons.IH [of r] show ?case
    by (simp add: Let_def split: sum.splits)
qed

lemma shrinks_scan:
  "shrinks r (snd (RemoveByTemplate_scan r orgPrefix matchPattern templateName cursor))"
proof (induction r orgPrefix matchPattern templateName cursor rule: RemoveByTemplate_scan.induct)
  case (1 r orgPrefix matchPattern templateName cursor)
  show ?case
  proof (cases "redis_Scan r cursor matchPattern 100")
    case (Inl err)
    then show ?thesis
      by (subst RemoveByTemplate_scan.simps) (simp add: shrinks_refl)
  next
    case (Inr page)
    obtain configKeys "next" where page: "page = (configKeys, next)" by (cases page)
    let ?r' = "RemoveByTemplate_keys r orgPrefix templateName configKeys"
    have step: "shrinks r ?r'" by (rule shrinks_keys)
    show ?thesis
    proof (cases "next = 0")
      case True
      with Inr page step show ?thesis
        by (subst RemoveByTemplate_scan.simps) simp
    next
      case False
      from "1.IH" [OF Inr page [symmetric] refl False]
      have "shrinks ?r' (snd (RemoveByTemplate_scan ?r' orgPrefix matchPattern templateName next))" .
      with step have "shrinks r (snd (RemoveByTemplate_scan ?r' orgPrefix matchPattern templateName next))"
        by (rule shrinks_trans)
      with Inr page False show ?thesis
        by (subst RemoveByTemplate_scan.simps) simp
    qed
  qed
qed

lemma Contains_prefix: "prefix substr s \<Longrightarrow> Contains s substr"
  by (cases s) simp_all

lemma Contains_append: "Contains (a @ substr @ b) substr"
  by (induction a) (simp_all add: Contains_prefix)

lemma provenance_key_kept:
  assumes "UseRedis s"
  shows "live (RedisStore (snd (RemoveByTemplate s templateName))) (''{'' @ Organization s @ ''}:template:'' @ id')
       = live (RedisStore s) (''{'' @ Organization s @ ''}:template:'' @ id')"
proof -
  let ?P = "''{'' @ Organization s @ ''}:''"
  let ?D = "\<lambda>k. \<not> Contains k '':template:'' \<or> prefix (?P @ '':template:'') k"
  have "changes_only ?D (RedisStore s)
      (snd (RemoveByTemplate_scan (RedisStore s) ?P (?P @ ''*'') templateName 0))"
    by (rule changes_only_scan) (simp_all add: RemoveByTemplate_templateKey_def)
  moreover have "Contains ((''{'' @ Organization s @ ''}'') @ '':template:'' @ id') '':template:''"
    by (rule Contains_append)
  then have "\<not> ?D (''{'' @ Organization s @ ''}:template:'' @ id')"
    by simp
  ultimately show ?thesis
    using assms unfolding changes_only_def
    by (simp add: RemoveByTemplate_def split_beta Let_def)
qed

lemma artifact_key_shrinks:
  assumes "UseRedis s"
  shows "shrinks (RedisStore s) (RedisStore (snd (RemoveByTemplate s templateName)))"
  using assms shrinks_scan [of "RedisStore s"]
  by (simp add: RemoveByTemplate_def split_beta Let_def)


lemma live_slots_update:
  "live (r\<lparr>slots := AList.update k v sl\<rparr>) k' = (if k' = k then v else live (r\<lparr>slots := sl\<rparr>) k')"
  by (cases v) (simp_all add: live_def update_conv')

lemma SetWithTemplate_reliable:
  assumes "UseRedis s" and "reliable (RedisStore s)" and "0 < sint (TTL s)"
  shows "fst (SetWithTemplate s id' content templateName) = None"
    and "live (RedisStore (snd (SetWithTemplate s id' content templateName))) k =
      (if k = ''{'' @ Organization s @ ''}:template:'' @ id' then Some (templateName, TTL s)
       else if k = ''{'' @ Organization s @ ''}:'' @ id' then Some (content, TTL s)
       else live (RedisStore s) k)"
    and "rejects (RedisStore (snd (SetWithTemplate s id' content templateName))) = rejects (RedisStore s)"
proof -
  let ?key = "''{'' @ Organization s @ ''}:'' @ id'"
  let ?tkey = "''{'' @ Organization s @ ''}:template:'' @ id'"
  let ?r1 = "(RedisStore s)\<lparr>slots := AList.update ?key (Some (content, 0)) (slots (RedisStore s))\<rparr>"
  let ?r2 = "?r1\<lparr>slots := AList.update ?key (Some (content, TTL s)) (slots ?r1)\<rparr>"
  let ?r3 = "?r2\<lparr>slots := AList.update ?tkey (Some (templateName, TTL s)) (slots ?r2)\<rparr>"
  have s1: "redis_Set (RedisStore s) ?key content 0 = (Inr ''OK'', ?r1)"
    using assms(2) by (simp add: redis_Set_def reliable_def)
  have "live ?r1 ?key = Some (content, 0)"
    by (simp add: live_update)
  then have s2: "redis_Expire ?r1 ?key (TTL s) = (Inr True, ?r2)"
    using assms(2,3) by (simp add: redis_Expire_def reliable_def)
  have s3: "redis_Set ?r2 ?tkey templateName (TTL s) = (Inr ''OK'', ?r3)"
    using assms(2,3) by (simp add: redis_Set_def reliable_def)
  have result: "SetWithTemplate s id' content templateName = (None, s\<lparr>RedisStore := ?r3\<rparr>)"
    unfolding SetWithTemplate_def Let_def Sprintf_key Sprintf_templateKey
    using assms(1) by (simp only: if_True s1 s2 s3 prod.case sum.case)
  show "fst (SetWithTemplate s id' content templateName) = None"
    by (simp only: result fst_conv)
  show "live (RedisStore (snd (SetWithTemplate s id' content templateName))) k =
      (if k = ?tkey then Some (templateName, TTL s)
       else if k = ?key then Some (content, TTL s)
       else live (RedisStore s) k)"
    unfolding result by (simp add: live_slots_update del: append.simps)
  show "rejects (RedisStore (snd (SetWithTemplate s id' content templateName))) = rejects (RedisStore s)"
    unfolding result by simp
qed

lemma Get_reliable:
  "UseRedis s \<Longrightarrow> reliable (RedisStore s) \<Longrightarrow>
   succeeds (Get s id') = present (RedisStore s) (''{'' @ Organization s @ ''}:'' @ id')"
  by (simp add: Get_def redis_Get_def reliable_def succeeds_def present_def split: option.splits)

lemma GetTemplate_reliable:
  "UseRedis s \<Longrightarrow> reliable (RedisStore s) \<Longrightarrow>
   succeeds (GetTemplate s id') = present (RedisStore s) (''{'' @ Organization s @ ''}:template:'' @ id')"
  by (simp add: GetTemplate_def redis_Get_def reliable_def succeeds_def present_def split: option.splits)

lemma Get_memory:
  "\<not> UseRedis s \<Longrightarrow>
   succeeds (Get s id') = (map_of (MemoryStore s) (''{'' @ Organization s @ ''}:'' @ id') \<noteq> None)"
  by (simp add: Get_def succeeds_def split: option.splits)

lemma GetTemplate_memory:
  "\<not> UseRedis s \<Longrightarrow>
   succeeds (GetTemplate s id') = (map_of (MemoryTemplateMap s) (''{'' @ Organization s @ ''}:'' @ id') \<noteq> None)"
  by (simp add: GetTemplate_def succeeds_def split: option.splits)


lemma SetWithTemplate_memory_consistent:
  assumes "\<not> UseRedis s" and "consistent s id'"
  shows "consistent (snd (SetWithTemplate s id0 content templateName)) id'"
proof -
  have "snd (SetWithTemplate s id0 content templateName) =
      s\<lparr>MemoryStore := AList.update (''{'' @ Organization s @ ''}:'' @ id0) content (MemoryStore s),
        MemoryTemplateMap := AList.update (''{'' @ Organization s @ ''}:'' @ id0) templateName (MemoryTemplateMap s)\<rparr>"
    unfolding SetWithTemplate_def Let_def Sprintf_key using assms(1) by simp
  with assms show ?thesis
    by (simp add: consistent_def Get_memory GetTemplate_memory update_conv' del: append.simps)
qed

lemma RemoveByTemplate_memory_consistent:
  assumes "\<not> UseRedis s" and "consistent s id'"
  shows "consistent (snd (RemoveByTemplate s templateName)) id'"
  using assms RemoveByTemplate_memory_frame [OF assms(1), of templateName]
  by (simp add: consistent_def Get_memory GetTemplate_memory RemoveByTemplate_memory_store
        RemoveByTemplate_memory_map del: append.simps)

lemma SetWithTemplate_remote_consistent:
  assumes "UseRedis s" and "reliable (RedisStore s)" and "0 < sint (TTL s)"
    and "\<forall>id'. \<not> prefix ''template:'' id' \<longrightarrow> consistent s id'"
    and "\<not> prefix ''template:'' id'"
  shows "consistent (snd (SetWithTemplate s id0 content templateName)) id'"
proof -
  let ?s' = "snd (SetWithTemplate s id0 content templateName)"
  note after = SetWithTemplate_reliable [OF assms(1-3), of id0 content templateName]
  from SetWithTemplate_remote [OF assms(1), of id0 content templateName]
  have remote: "UseRedis ?s'" and org: "Organization ?s' = Organization s"
    by simp_all
  from after(3) assms(2) have rel: "reliable (RedisStore ?s')"
    by (simp add: reliable_def)
  from assms(4,5) have before: "present (RedisStore s) (''{'' @ Organization s @ ''}:'' @ id')
      \<longrightarrow> present (RedisStore s) (''{'' @ Organization s @ ''}:template:'' @ id')"
    using assms(1,2) by (simp add: consistent_def Get_reliable GetTemplate_reliable)
  have differ: "''{'' @ Organization s @ ''}:'' @ id' \<noteq> ''{'' @ Organization s @ ''}:template:'' @ id0"
    using assms(5) by auto
  show ?thesis
    using before differ
    by (simp add: consistent_def Get_reliable [OF remote rel] GetTemplate_reliable [OF remote rel]
          org present_def after(2) del: append.simps)
qed

lemma RemoveByTemplate_remote_consistent:
  assumes "UseRedis s" and "reliable (RedisStore s)" and "consistent s id'"
  shows "consistent (snd (RemoveByTemplate s templateName)) id'"
proof -
  let ?s' = "snd (RemoveByTemplate s templateName)"
  from RemoveByTemplate_remote [OF assms(1), of templateName]
  have remote: "UseRedis ?s'" and org: "Organization ?s' = Organization s"
    and frame: "changes_only (reach (Organization s)) (RedisStore s) (RedisStore ?s')"
    by simp_all
  from frame assms(2) have rel: "reliable (RedisStore ?s')"
    by (simp add: reliable_def changes_only_def)
  have artifact: "present (RedisStore ?s') k \<Longrightarrow> present (RedisStore s) k" for k
    using artifact_key_shrinks [OF assms(1), of templateName]
    by (auto simp: shrinks_def present_def)
  have provenance: "present (RedisStore ?s') (''{'' @ Organization s @ ''}:template:'' @ id')
      = present (RedisStore s) (''{'' @ Organization s @ ''}:template:'' @ id')"
    by (simp only: present_def provenance_key_kept [OF assms(1)])
  from assms(3) artifact [of "''{'' @ Organization s @ ''}:'' @ id'"] show ?thesis
    by (simp add: consistent_def Get_reliable [OF remote rel] GetTemplate_reliable [OF remote rel]
          Get_reliable [OF assms(1,2)] GetTemplate_reliable [OF assms(1,2)] org provenance
          del: append.simps)
qed

lemma apply_operation_consistent:
  assumes "dependable s" and "\<forall>id'. plain_id s id' \<longrightarrow> consistent s id'"
  shows "dependable (snd (apply_operation s operation)) \<and>
     (\<forall>id'. plain_id (snd (apply_operation s operation)) id' \<longrightarrow>
        consistent (snd (apply_operation s operation)) id') \<and>
     UseRedis (snd (apply_operation s operation)) = UseRedis s"
proof (cases "UseRedis s")
  case True
  with assms have rel: "reliable (RedisStore s)" and ttl: "0 < sint (TTL s)"
    and inv: "\<forall>id'. \<not> prefix ''template:'' id' \<longrightarrow> consistent s id'"
    by (simp_all add: dependable_def plain_id_def)
  note frame = apply_operation_remote [OF True, of operation]
  from frame rel ttl have "dependable (snd (apply_operation s operation))"
    by (simp add: dependable_def reliable_def changes_only_def)
  moreover have "consistent (snd (apply_operation s operation)) id'"
    if "\<not> prefix ''template:'' id'" for id'
    using that inv
      SetWithTemplate_remote_consistent [OF True rel ttl inv that]
      RemoveByTemplate_remote_consistent [OF True rel, of id']
    by (cases operation) (simp_all add: Set_def)
  ultimately show ?thesis
    using frame True by (simp add: plain_id_def)
next
  case False
  have mem: "\<not> UseRedis (snd (apply_operation s operation))"
    using False RemoveByTemplate_memory_frame [OF False]
    by (cases operation) (simp_all add: Set_def SetWithTemplate_def Let_def)
  moreover have "consistent (snd (apply_operation s operation)) id'" for id'
    using assms(2) False SetWithTemplate_memory_consistent [OF False, of id']
      RemoveByTemplate_memory_consistent [OF False, of id']
    by (cases operation) (simp_all add: Set_def plain_id_def)
  ultimately show ?thesis
    using False by (simp add: dependable_def plain_id_def)
qed

text \<open>
  C5. Provenance consistency. The claim: after every sequence of \<open>Set\<close>,
  \<open>SetWithTemplate\<close> and \<open>RemoveByTemplate\<close>, whenever \<open>Get(id)\<close> succeeds so does
  \<open>GetTemplate(id)\<close>, and \<open>Set\<close> records the provenance \<open>unknown\<close>. It holds,
  as an invariant that every such sequence preserves, for every id in memory, and on
  the remote backend for the ids that do not begin with \<open>template:\<close>, when the server
  rejects no command and the TTL is positive (and, as in the whole model, no key
  expires in between). \<open>Set\<close> then records \<open>unknown\<close> for every id.
\<close>

theorem provenance_consistency:
  assumes "dependable s" and "\<forall>id'. plain_id s id' \<longrightarrow> consistent s id'"
  shows "(\<forall>id'. plain_id s id' \<longrightarrow> consistent (run_operations s operations) id') \<and>
     GetTemplate (snd (Set (run_operations s operations) id0 content)) id0 = Inr ''unknown''"
proof -
  have inv: "dependable (run_operations s operations) \<and>
      (\<forall>id'. plain_id (run_operations s operations) id' \<longrightarrow> consistent (run_operations s operations) id') \<and>
      UseRedis (run_operations s operations) = UseRedis s"
    using assms
  proof (induction operations arbitrary: s)
    case Nil
    then show ?case by simp
  next
    case (Cons operation operations)
    note step = apply_operation_consistent [OF Cons.prems, of operation]
    from step have "dependable (snd (apply_operation s operation))"
      and "\<forall>id'. plain_id (snd (apply_operation s operation)) id' \<longrightarrow>
        consistent (snd (apply_operation s operation)) id'"
      by simp_all
    from Cons.IH [OF this] step show ?case
      by simp
  qed
  let ?s' = "run_operations s operations"
  have unknown: "GetTemplate (snd (Set ?s' id0 content)) id0 = Inr ''unknown''"
  proof (cases "UseRedis ?s'")
    case True
    with inv have rel: "reliable (RedisStore ?s')" and ttl: "0 < sint (TTL ?s')"
      by (simp_all add: dependable_def)
    note after = SetWithTemplate_reliable [OF True rel ttl, of id0 content "''unknown''"]
    from SetWithTemplate_remote [OF True, of id0 content "''unknown''"]
    have remote: "UseRedis (snd (Set ?s' id0 content))"
      and org: "Organization (snd (Set ?s' id0 content)) = Organization ?s'"
      by (simp_all add: Set_def)
    from after(3) rel have "\<not> rejects (RedisStore (snd (Set ?s' id0 content))) c" for c
      by (simp add: reliable_def Set_def)
    with remote org after(2) show ?thesis
      by (simp add: GetTemplate_def redis_Get_def Set_def del: append.simps)
  next
    case False
    then show ?thesis
      by (simp add: Set_def SetWithTemplate_def GetTemplate_def Let_def update_conv')
  qed
  from inv unknown show ?thesis
    by (simp add: plain_id_def)
qed

theorem provenance_consistency_witness:
  "dependable (remote_store ''o'') \<and>
   consistent (run_operations (remote_store ''o'')
      [OpSetWithTemplate ''cfg1'' ''hello'' ''a'', OpSet ''cfg2'' ''x'', OpRemoveByTemplate ''a'']) ''cfg2'' \<and>
   GetTemplate (snd (Set (run_operations (remote_store ''o'')
      [OpSetWithTemplate ''cfg1'' ''hello'' ''a'', OpSet ''cfg2'' ''x'', OpRemoveByTemplate ''a''])
      ''cfg3'' ''y'')) ''cfg3'' = Inr ''unknown''"
proof -
  have h1: "dependable (remote_store ''o'')"
    by (simp add: dependable_def remote_store_def empty_server_def reliable_def Second_def)
  have h2: "\<forall>id'. plain_id (remote_store ''o'') id' \<longrightarrow> consistent (remote_store ''o'') id'"
    by (simp add: consistent_def succeeds_def Get_def redis_Get_def live_def remote_store_def empty_server_def)
  have h3: "plain_id (remote_store ''o'') ''cfg2''"
    by (simp add: plain_id_def)
  from provenance_consistency [OF h1 h2, of
      "[OpSetWithTemplate ''cfg1'' ''hello'' ''a'', OpSet ''cfg2'' ''x'', OpRemoveByTemplate ''a'']"
      "''cfg3''" "''y''"] h1 h3
  show ?thesis
    by blast
qed

text \<open>
  The claim fails on the remote backend for the id \<open>template:x\<close> once \<open>x\<close> is stored:
  the artifact key of \<open>template:x\<close> is the provenance key of \<open>x\<close>, so \<open>Get\<close> succeeds
  with the template name of \<open>x\<close>, and \<open>GetTemplate\<close> finds nothing.
\<close>

theorem provenance_key_is_an_artifact_key:
  "fst (SetWithTemplate (remote_store ''o'') ''x'' ''c'' ''t'') = None \<and>
   Get (snd (SetWithTemplate (remote_store ''o'') ''x'' ''c'' ''t'')) ''template:x'' = Inr ''t'' \<and>
   GetTemplate (snd (SetWithTemplate (remote_store ''o'') ''x'' ''c'' ''t'')) ''template:x''
     = Inl (Errorf ''Template information not found for config: template:x'')"
  by (simp add: eval_defs)

text \<open>
  It also fails when the server fails a command in the middle of \<open>SetWithTemplate\<close>,
  which returns the error and leaves what it wrote: here the content without its
  provenance.
\<close>

lemma partial_write_without_provenance:
  "fst (SetWithTemplate ((remote_store ''o'')\<lparr>RedisStore := expire_failing_server\<rparr>) ''x'' ''c'' ''t'')
     = Some BackendError \<and>
   Get (snd (SetWithTemplate ((remote_store ''o'')\<lparr>RedisStore := expire_failing_server\<rparr>) ''x'' ''c'' ''t'')) ''x''
     = Inr ''c'' \<and>
   GetTemplate (snd (SetWithTemplate ((remote_store ''o'')\<lparr>RedisStore := expire_failing_server\<rparr>) ''x'' ''c'' ''t'')) ''x''
     = Inl (Errorf ''Template information not found for config: x'')"
  by (simp add: eval_defs expire_failing_server_def)

section \<open>Reloading templates\<close>

lemma load_templates_error:
  "fst (load_templates w tmpls files) = None \<longleftrightarrow> list_all (loads w) files"
  by (induction files arbitrary: tmpls) (auto simp: loads_def Let_def split: sum.splits)

lemma load_templates_first_error:
  "fst (load_templates w tmpls files) =
     (case dropWhile (loads w) files of [] \<Rightarrow> None | f # fs \<Rightarrow> load_error w f)"
proof (induction files arbitrary: tmpls)
  case Nil
  show ?case by simp
next
  case (Cons f fs)
  show ?case
    using Cons.IH by (simp add: loads_def load_error_def Let_def split: sum.splits)
qed

lemma load_templates_frame:
  "n \<notin> set (currentTemplates (takeWhile (loads w) files)) \<Longrightarrow>
   map_of (snd (load_templates w tmpls files)) n = map_of tmpls n"
proof (induction files arbitrary: tmpls)
  case Nil
  then show ?case by simp
next
  case (Cons f fs)
  show ?case
  proof (cases "loads w f")
    case False
    then show ?thesis by (auto simp: loads_def Let_def split: sum.splits)
  next
    case True
    then obtain content tmpl where rd: "ReadFile w f = Inr content"
      and ps: "Parse w (Base f) content = Inr tmpl"
      by (auto simp: loads_def split: sum.splits)
    from True Cons.prems have ne: "n \<noteq> TrimSuffix (Base f) ''.conf.tmpl''"
      and rest: "n \<notin> set (currentTemplates (takeWhile (loads w) fs))"
      by (auto simp: currentTemplates_def)
    from Cons.IH [OF rest, of "AList.update (TrimSuffix (Base f) ''.conf.tmpl'') tmpl tmpls"] rd ps ne
    show ?thesis by (simp add: Let_def update_conv')
  qed
qed

lemma load_templates_map:
  "map_of (snd (load_templates w tmpls files)) = map_of tmpls ++ map_of (snd (load_templates w [] files))"
proof (induction files arbitrary: tmpls)
  case Nil
  then show ?case by simp
next
  case (Cons f fs)
  show ?case
  proof (cases "loads w f")
    case False
    then show ?thesis by (auto simp: loads_def Let_def split: sum.splits)
  next
    case True
    then obtain content tmpl where rd: "ReadFile w f = Inr content"
      and ps: "Parse w (Base f) content = Inr tmpl"
      by (auto simp: loads_def split: sum.splits)
    let ?n = "TrimSuffix (Base f) ''.conf.tmpl''"
    have "map_of (snd (load_templates w tmpls (f # fs)))
        = map_of (AList.update ?n tmpl tmpls) ++ map_of (snd (load_templates w [] fs))"
      using rd ps Cons.IH [of "AList.update ?n tmpl tmpls"] by (simp add: Let_def)
    also have "\<dots> = map_of tmpls ++ (map_of [(?n, tmpl)] ++ map_of (snd (load_templates w [] fs)))"
      by (simp add: update_conv' map_add_upd_left fun_eq_iff map_add_def split: option.splits)
    also have "map_of [(?n, tmpl)] ++ map_of (snd (load_templates w [] fs))
        = map_of (snd (load_templates w [] (f # fs)))"
      using rd ps Cons.IH [of "[(?n, tmpl)]"]
      by (simp add: Let_def fun_eq_iff map_add_def split: option.splits)
    finally show ?thesis .
  qed
qed

lemma load_templates_twice:
  "map_of (snd (load_templates w (snd (load_templates w tmpls files)) files))
     = map_of (snd (load_templates w tmpls files))"
proof -
  have "map_of (snd (load_templates w (snd (load_templates w tmpls files)) files))
      = (map_of tmpls ++ map_of (snd (load_templates w [] files))) ++ map_of (snd (load_templates w [] files))"
    using load_templates_map [of w "snd (load_templates w tmpls files)" files]
      load_templates_map [of w tmpls files] by simp
  also have "\<dots> = map_of tmpls ++ map_of (snd (load_templates w [] files))"
    by (simp add: fun_eq_iff map_add_def split: option.splits)
  finally show ?thesis
    using load_templates_map [of w tmpls files] by simp
qed

lemma load_templates_keys:
  "fst ` set (snd (load_templates w tmpls files)) \<subseteq> fst ` set tmpls \<union> set (currentTemplates files)"
proof (induction files arbitrary: tmpls)
  case Nil then show ?case by simp
next
  case (Cons f fs)
  show ?case
  proof (cases "loads w f")
    case False
    then show ?thesis by (auto simp: loads_def Let_def split: sum.splits)
  next
    case True
    then obtain content tmpl where rd: "ReadFile w f = Inr content"
      and ps: "Parse w (Base f) content = Inr tmpl"
      by (auto simp: loads_def split: sum.splits)
    let ?n = "TrimSuffix (Base f) ''.conf.tmpl''"
    have "fst ` set (AList.update ?n tmpl tmpls) = insert ?n (fst ` set tmpls)"
      using dom_update [of ?n tmpl tmpls] by (simp add: dom_map_of_conv_image_fst)
    with Cons.IH [of "AList.update ?n tmpl tmpls"] rd ps show ?thesis
      by (auto simp: Let_def currentTemplates_def)
  qed
qed

lemma remove_templates_templates:
  "map_of (templates (remove_templates g names)) n =
     (if n \<in> set names then None else map_of (templates g) n)"
  by (induction g names rule: remove_templates.induct) (auto simp: delete_conv')

lemma remove_templates_configFolder:
  "configFolder (remove_templates g names) = configFolder g"
  by (induction g names rule: remove_templates.induct) auto

lemma remove_templates_more:
  "globals.more (remove_templates g names) = globals.more g"
  by (induction g names rule: remove_templates.induct) auto

lemma remove_templates_keys:
  "fst ` set (templates (remove_templates g names)) = fst ` set (templates g) - set names"
proof -
  have "dom (map_of (templates (remove_templates g names))) = dom (map_of (templates g)) - set names"
    by (auto simp: remove_templates_templates dom_def)
  then show ?thesis by (simp add: dom_map_of_conv_image_fst)
qed

lemma templatesToRemove_set:
  "set (templatesToRemove tmpls current) = fst ` set tmpls - set current"
  by (auto simp: templatesToRemove_def)

lemma templatesToRemove_empty:
  "templatesToRemove tmpls current = [] \<longleftrightarrow> fst ` set tmpls \<subseteq> set current"
  using templatesToRemove_set [of tmpls current] by (metis Diff_eq_empty_iff set_empty)


lemma remove_templates_eq:
  "remove_templates g names =
     g\<lparr>templates := fold AList.delete names (templates g),
       globalStorage := map_option (fold (\<lambda>name storage. snd (RemoveByTemplate storage name)) names)
                          (globalStorage g)\<rparr>"
  by (induction names arbitrary: g) (simp_all add: option.map_comp option.map_id comp_def split: option.splits)

lemma remove_templates_configFolder_update:
  "remove_templates (g\<lparr>configFolder := p\<rparr>) names = (remove_templates g names)\<lparr>configFolder := p\<rparr>"
  by (simp add: remove_templates_eq)

lemma load_templates_error_same:
  "fst (load_templates w tmpls files) = fst (load_templates w tmpls' files)"
proof (induction files arbitrary: tmpls tmpls')
  case Nil
  show ?case by simp
next
  case (Cons f fs)
  show ?case
    using Cons.IH by (simp add: Let_def split: sum.splits)
qed

lemma in_sync_removedNames: "in_sync w path g \<longleftrightarrow> removedNames w path g = []"
  by (auto simp: in_sync_def removedNames_def templatesToRemove_empty list_all_iff split: sum.splits)

lemmas template_defs =
  LoadTemplates_def removedNames_def example_world_def example_globals_def
  currentTemplates_def templatesToRemove_def Base_def TrimSuffix_def HasSuffix_def loads_def Let_def stored_def good_world_def in_sync_def

lemma files_named_empty: "files_named name files = [] \<longleftrightarrow> name \<notin> set (currentTemplates files)"
  by (auto simp: files_named_def currentTemplates_def filter_empty_conv)

lemma load_templates_loaded:
  "files_named name (takeWhile (loads w) files) \<noteq> [] \<Longrightarrow>
   map_of (snd (load_templates w tmpls files)) name
     = parsed w (last (files_named name (takeWhile (loads w) files)))"
proof (induction files arbitrary: tmpls)
  case Nil
  then show ?case by (simp add: files_named_def)
next
  case (Cons f fs)
  show ?case
  proof (cases "loads w f")
    case False
    with Cons.prems show ?thesis by (simp add: files_named_def)
  next
    case True
    then obtain content tmpl where rd: "ReadFile w f = Inr content"
      and ps: "Parse w (Base f) content = Inr tmpl"
      by (auto simp: loads_def split: sum.splits)
    let ?n = "TrimSuffix (Base f) ''.conf.tmpl''"
    have step: "load_templates w tmpls (f # fs) = load_templates w (AList.update ?n tmpl tmpls) fs"
      using rd ps by (simp add: Let_def)
    have tw: "files_named name (takeWhile (loads w) (f # fs))
        = (if ?n = name then [f] else []) @ files_named name (takeWhile (loads w) fs)"
      using True by (simp add: files_named_def)
    show ?thesis
    proof (cases "files_named name (takeWhile (loads w) fs) = []")
      case False
      from Cons.IH [OF False, of "AList.update ?n tmpl tmpls"] False show ?thesis
        by (simp only: step tw) simp
    next
      case empty: True
      with Cons.prems True have name: "?n = name"
        by (auto simp: files_named_def split: if_splits)
      from empty have "name \<notin> set (currentTemplates (takeWhile (loads w) fs))"
        by (simp add: files_named_empty)
      then have "map_of (snd (load_templates w (AList.update ?n tmpl tmpls) fs)) name
          = map_of (AList.update ?n tmpl tmpls) name"
        by (rule load_templates_frame)
      also have "\<dots> = Some tmpl"
        using name by (simp add: update_conv')
      also have "\<dots> = parsed w f"
        using rd ps by (simp add: parsed_def)
      finally show ?thesis
        using empty name by (simp only: step tw) simp
    qed
  qed
qed

lemma fold_RemoveByTemplate_memory:
  assumes "\<not> UseRedis s"
  shows "\<not> UseRedis (fold (\<lambda>name storage. snd (RemoveByTemplate storage name)) names s) \<and>
     Organization (fold (\<lambda>name storage. snd (RemoveByTemplate storage name)) names s) = Organization s"
  using assms
proof (induction names arbitrary: s)
  case Nil
  then show ?case by simp
next
  case (Cons n ns)
  from RemoveByTemplate_memory_frame [OF Cons.prems, of n] Cons.prems
  have "\<not> UseRedis (snd (RemoveByTemplate s n))"
    and "Organization (snd (RemoveByTemplate s n)) = Organization s"
    by simp_all
  with Cons.IH [of "snd (RemoveByTemplate s n)"] show ?case
    by simp
qed

lemma fold_RemoveByTemplate_absent:
  assumes "\<not> UseRedis s" and "map_of (MemoryStore s) k = None"
  shows "map_of (MemoryStore (fold (\<lambda>name storage. snd (RemoveByTemplate storage name)) names s)) k = None"
  using assms
proof (induction names arbitrary: s)
  case Nil
  then show ?case by simp
next
  case (Cons n ns)
  from RemoveByTemplate_memory_frame [OF Cons.prems(1), of n] Cons.prems(1)
  have mem: "\<not> UseRedis (snd (RemoveByTemplate s n))"
    by simp
  from Cons.prems have "map_of (MemoryStore (snd (RemoveByTemplate s n))) k = None"
    by (simp add: RemoveByTemplate_memory_store)
  with Cons.IH [OF mem] show ?case
    by simp
qed

lemma fold_RemoveByTemplate_cascade:
  assumes "\<not> UseRedis s" and "map_of (MemoryTemplateMap s) k = Some T" and "T \<in> set names"
  shows "map_of (MemoryStore (fold (\<lambda>name storage. snd (RemoveByTemplate storage name)) names s)) k = None"
  using assms
proof (induction names arbitrary: s)
  case Nil
  then show ?case by simp
next
  case (Cons n ns)
  let ?s' = "snd (RemoveByTemplate s n)"
  from RemoveByTemplate_memory_frame [OF Cons.prems(1), of n] Cons.prems(1)
  have mem: "\<not> UseRedis ?s'"
    by simp
  show ?case
  proof (cases "k \<in> set (removed_keys s n)")
    case True
    with Cons.prems(1) have "map_of (MemoryStore ?s') k = None"
      by (simp add: RemoveByTemplate_memory_store)
    with mem
    have "map_of (MemoryStore (fold (\<lambda>name storage. snd (RemoveByTemplate storage name)) ns ?s')) k = None"
      by (rule fold_RemoveByTemplate_absent)
    then show ?thesis
      by simp
  next
    case False
    with Cons.prems(1,2) have kept: "map_of (MemoryTemplateMap ?s') k = Some T"
      by (simp add: RemoveByTemplate_memory_map)
    from False removed_keys_of_entry [OF Cons.prems(2)] have "n \<noteq> T"
      by auto
    with Cons.prems(3) have "T \<in> set ns"
      by auto
    with Cons.IH [OF mem kept] show ?thesis
      by simp
  qed
qed

text \<open>
  C2. Atomic reload. The claim: when a recognized template file fails to parse, the
  reload returns an error and leaves the registry exactly as it was. \<open>LoadTemplates\<close>
  does return the error, that of the first file that cannot be read or parsed, but
  it has no build-then-swap. By then every file listed before the failing one has
  been loaded: its name maps to its parsed template (of the last such file, when
  several carry the name). The templates whose files are gone have left the
  registry, and \<open>RemoveByTemplate\<close> has run on the store for each of them, in the
  order of the registry; in a memory store, every config recorded as generated from
  one of them is gone. What is preserved: a template whose file is still there and
  is not listed before the failing file keeps its entry, and nothing is added from
  the failing file or a later one.
\<close>

theorem LoadTemplates_parse_error:
  assumes "Glob w path ''*.conf.tmpl'' = Inr files" and "\<not> list_all (loads w) files"
  shows "fst (LoadTemplates w path g) \<noteq> None \<and>
     fst (LoadTemplates w path g) = load_error w (hd (dropWhile (loads w) files)) \<and>
     (\<forall>name. map_of (templates (snd (LoadTemplates w path g))) name =
        (if files_named name (takeWhile (loads w) files) \<noteq> []
         then parsed w (last (files_named name (takeWhile (loads w) files)))
         else if name \<in> set (currentTemplates files) then map_of (templates g) name
         else None)) \<and>
     globalStorage (snd (LoadTemplates w path g))
       = map_option
           (fold (\<lambda>name storage. snd (RemoveByTemplate storage name))
              (filter (\<lambda>name. name \<notin> set (currentTemplates files)) (map fst (templates g))))
           (globalStorage g) \<and>
     (\<forall>storage id' T.
        globalStorage g = Some storage \<and> \<not> UseRedis storage \<and> GetTemplate storage id' = Inr T \<and>
        T \<in> fst ` set (templates g) \<and> T \<notin> set (currentTemplates files) \<longrightarrow>
        stored (snd (LoadTemplates w path g)) id'
          = Inl (Errorf (''Key (id) does not exist: '' @ id')))"
proof -
  let ?names = "templatesToRemove (templates g) (currentTemplates files)"
  let ?g' = "remove_templates g ?names"
  let ?res = "load_templates w (templates ?g') files"
  let ?cascade = "fold (\<lambda>name storage. snd (RemoveByTemplate storage name)) ?names"
  have result: "LoadTemplates w path g = (fst ?res, ?g'\<lparr>configFolder := path, templates := snd ?res\<rparr>)"
    using assms(1)
    by (simp add: LoadTemplates_def Let_def remove_templates_configFolder_update split: prod.splits)
  have err: "fst ?res \<noteq> None"
    using assms(2) by (simp add: load_templates_error)
  from assms(2) have "dropWhile (loads w) files \<noteq> []"
    by (simp add: list_all_iff)
  then have first: "fst ?res = load_error w (hd (dropWhile (loads w) files))"
    by (cases "dropWhile (loads w) files") (simp_all add: load_templates_first_error)
  have entries: "map_of (snd ?res) name =
      (if files_named name (takeWhile (loads w) files) \<noteq> []
       then parsed w (last (files_named name (takeWhile (loads w) files)))
       else if name \<in> set (currentTemplates files) then map_of (templates g) name
       else None)" for name
  proof (cases "files_named name (takeWhile (loads w) files) = []")
    case False
    then show ?thesis
      by (simp add: load_templates_loaded)
  next
    case True
    then have "name \<notin> set (currentTemplates (takeWhile (loads w) files))"
      by (simp add: files_named_empty)
    then have "map_of (snd ?res) name = map_of (templates ?g') name"
      by (rule load_templates_frame)
    also have "\<dots> = (if name \<in> set ?names then None else map_of (templates g) name)"
      by (rule remove_templates_templates)
    also have "\<dots> = (if name \<in> set (currentTemplates files) then map_of (templates g) name else None)"
      by (auto simp: templatesToRemove_set map_of_eq_None_iff)
    finally show ?thesis
      using True by simp
  qed
  have store: "globalStorage (snd (LoadTemplates w path g)) = map_option ?cascade (globalStorage g)"
    unfolding result by (simp add: remove_templates_eq)
  have gone: "stored (snd (LoadTemplates w path g)) id'
      = Inl (Errorf (''Key (id) does not exist: '' @ id'))"
    if g: "globalStorage g = Some storage" and mem: "\<not> UseRedis storage"
      and T: "GetTemplate storage id' = Inr T" "T \<in> fst ` set (templates g)"
        "T \<notin> set (currentTemplates files)"
    for storage id' T
  proof -
    let ?k = "''{'' @ Organization storage @ ''}:'' @ id'"
    from mem T(1) have "map_of (MemoryTemplateMap storage) ?k = Some T"
      by (auto simp: GetTemplate_def split: option.splits)
    moreover from T(2,3) have "T \<in> set ?names"
      by (simp add: templatesToRemove_set)
    ultimately have "map_of (MemoryStore (?cascade storage)) ?k = None"
      using mem by (intro fold_RemoveByTemplate_cascade)
    with fold_RemoveByTemplate_memory [OF mem, of ?names] store g show ?thesis
      by (simp add: stored_def Get_def)
  qed
  have c1: "fst (LoadTemplates w path g) \<noteq> None"
    and c2: "fst (LoadTemplates w path g) = load_error w (hd (dropWhile (loads w) files))"
    and c3: "map_of (templates (snd (LoadTemplates w path g))) name =
      (if files_named name (takeWhile (loads w) files) \<noteq> []
       then parsed w (last (files_named name (takeWhile (loads w) files)))
       else if name \<in> set (currentTemplates files) then map_of (templates g) name
       else None)" for name
    using err first entries [of name] by (simp_all add: result)
  have c4: "globalStorage (snd (LoadTemplates w path g))
      = map_option
          (fold (\<lambda>name storage. snd (RemoveByTemplate storage name))
             (filter (\<lambda>name. name \<notin> set (currentTemplates files)) (map fst (templates g))))
          (globalStorage g)"
    using store by (simp only: templatesToRemove_def)
  have c5: "\<forall>storage id' T.
      globalStorage g = Some storage \<and> \<not> UseRedis storage \<and> GetTemplate storage id' = Inr T \<and>
      T \<in> fst ` set (templates g) \<and> T \<notin> set (currentTemplates files) \<longrightarrow>
      stored (snd (LoadTemplates w path g)) id'
        = Inl (Errorf (''Key (id) does not exist: '' @ id'))"
    using gone by blast
  show ?thesis
    by (intro conjI) (rule c1, rule c2, rule allI, rule c3, rule c4, rule c5)
qed

theorem LoadTemplates_parse_error_witness:
  "Glob example_world ''conf'' ''*.conf.tmpl'' = Inr [''conf/a.conf.tmpl'', ''conf/b.conf.tmpl''] \<and>
   \<not> list_all (loads example_world) [''conf/a.conf.tmpl'', ''conf/b.conf.tmpl''] \<and>
   fst (LoadTemplates example_world ''conf'' example_globals) \<noteq> None \<and>
   map_of (templates (snd (LoadTemplates example_world ''conf'' example_globals))) ''a''
     = Some ''alpha v2'' \<and>
   map_of (templates (snd (LoadTemplates example_world ''conf'' example_globals))) ''b'' = None"
proof -
  let ?files = "[''conf/a.conf.tmpl'', ''conf/b.conf.tmpl'']"
  have files: "Glob example_world ''conf'' ''*.conf.tmpl'' = Inr ?files"
    by (simp add: example_world_def)
  have fails: "\<not> list_all (loads example_world) ?files"
    by (simp add: example_world_def loads_def)
  have before: "takeWhile (loads example_world) ?files = [''conf/a.conf.tmpl'']"
    by (simp add: example_world_def loads_def)
  have a: "files_named ''a'' [''conf/a.conf.tmpl''] = [''conf/a.conf.tmpl'']"
    and b: "files_named ''b'' [''conf/a.conf.tmpl''] = []"
    and new: "parsed example_world ''conf/a.conf.tmpl'' = Some ''alpha v2''"
    and present: "''b'' \<in> set (currentTemplates ?files)"
    and old: "map_of (templates example_globals) ''b'' = None"
    by (simp_all add: files_named_def parsed_def example_world_def example_globals_def
        currentTemplates_def Base_def TrimSuffix_def HasSuffix_def)
  note reload = LoadTemplates_parse_error [OF files fails, of example_globals]
  from reload have "fst (LoadTemplates example_world ''conf'' example_globals) \<noteq> None"
    by (rule conjunct1)
  moreover from reload
  have entries: "map_of (templates (snd (LoadTemplates example_world ''conf'' example_globals))) name =
      (if files_named name (takeWhile (loads example_world) ?files) \<noteq> []
       then parsed example_world (last (files_named name (takeWhile (loads example_world) ?files)))
       else if name \<in> set (currentTemplates ?files) then map_of (templates example_globals) name
       else None)" for name
    by blast
  from entries [of "''a''"]
  have "map_of (templates (snd (LoadTemplates example_world ''conf'' example_globals))) ''a''
      = Some ''alpha v2''"
    by (simp only: before a new last.simps if_True if_False simp_thms list.simps)
  moreover from entries [of "''b''"]
  have "map_of (templates (snd (LoadTemplates example_world ''conf'' example_globals))) ''b'' = None"
    by (simp only: before b present old if_True if_False simp_thms)
  ultimately show ?thesis
    using files fails by simp
qed

text \<open>
  The claim fails here: \<open>b.conf.tmpl\<close> does not parse and the call returns its error,
  yet \<open>old\<close> has left the registry, its config \<open>cfg1\<close> has left the store, and
  \<open>a\<close> is already the new version.
\<close>

theorem LoadTemplates_not_atomic:
  "fst (LoadTemplates example_world ''conf'' example_globals) = Some (TemplateParseError ''b.conf.tmpl'') \<and>
   map_of (templates example_globals) ''old'' = Some ''omega v1'' \<and>
   map_of (templates (snd (LoadTemplates example_world ''conf'' example_globals))) ''old'' = None \<and>
   map_of (templates example_globals) ''a'' = Some ''alpha v1'' \<and>
   map_of (templates (snd (LoadTemplates example_world ''conf'' example_globals))) ''a'' = Some ''alpha v2'' \<and>
   stored example_globals ''cfg1'' = Inr ''hello'' \<and>
   stored (snd (LoadTemplates example_world ''conf'' example_globals)) ''cfg1''
     = Inl (Errorf ''Key (id) does not exist: cfg1'')"
  by (simp add: template_defs eval_defs)

lemma LoadTemplates_in_sync: "in_sync w path (snd (LoadTemplates w path g))"
proof (cases "Glob w path ''*.conf.tmpl''")
  case (Inl err)
  then show ?thesis by (simp add: in_sync_def)
next
  case (Inr files)
  let ?names = "templatesToRemove (templates g) (currentTemplates files)"
  let ?g' = "remove_templates g ?names"
  let ?res = "load_templates w (templates ?g') files"
  have result: "LoadTemplates w path g = (fst ?res, ?g'\<lparr>configFolder := path, templates := snd ?res\<rparr>)"
    using Inr
    by (simp add: LoadTemplates_def Let_def remove_templates_configFolder_update split: prod.splits)
  have "fst ` set (snd ?res) \<subseteq> fst ` set (templates ?g') \<union> set (currentTemplates files)"
    by (rule load_templates_keys)
  moreover have "fst ` set (templates ?g') \<subseteq> set (currentTemplates files)"
    by (auto simp: remove_templates_keys templatesToRemove_set)
  ultimately have "fst ` set (snd ?res) \<subseteq> set (currentTemplates files)"
    by blast
  with Inr result show ?thesis
    by (simp add: in_sync_def list_all_iff subset_iff)
qed

lemma LoadTemplates_in_sync_step:
  assumes "in_sync w path g"
  shows "globalStorage (snd (LoadTemplates w path g)) = globalStorage g"
    and "Glob w path ''*.conf.tmpl'' = Inr files \<Longrightarrow>
      LoadTemplates w path g
        = (fst (load_templates w (templates g) files),
           g\<lparr>configFolder := path, templates := snd (load_templates w (templates g) files)\<rparr>)"
proof -
  show "globalStorage (snd (LoadTemplates w path g)) = globalStorage g"
  proof (cases "Glob w path ''*.conf.tmpl''")
    case (Inl err)
    then show ?thesis by (simp add: LoadTemplates_def)
  next
    case (Inr fs)
    with assms have "templatesToRemove (templates g) (currentTemplates fs) = []"
      by (simp add: in_sync_removedNames removedNames_def)
    with Inr show ?thesis
      by (simp add: LoadTemplates_def Let_def split: prod.splits)
  qed
next
  assume fs: "Glob w path ''*.conf.tmpl'' = Inr files"
  with assms have "templatesToRemove (templates g) (currentTemplates files) = []"
    by (simp add: in_sync_removedNames removedNames_def)
  with fs show "LoadTemplates w path g
        = (fst (load_templates w (templates g) files),
           g\<lparr>configFolder := path, templates := snd (load_templates w (templates g) files)\<rparr>)"
    by (simp add: LoadTemplates_def Let_def split: prod.splits)
qed

lemma LoadTemplates_result:
  assumes "Glob w path ''*.conf.tmpl'' = Inr files"
  shows "LoadTemplates w path g =
     (fst (load_templates w
             (templates (remove_templates g (templatesToRemove (templates g) (currentTemplates files))))
             files),
      (remove_templates g (templatesToRemove (templates g) (currentTemplates files)))
        \<lparr>configFolder := path,
         templates := snd (load_templates w
             (templates (remove_templates g (templatesToRemove (templates g) (currentTemplates files))))
             files)\<rparr>)"
  using assms
  by (simp add: LoadTemplates_def Let_def remove_templates_configFolder_update split: prod.splits)

lemma initial_in_sync: "in_sync w path initial_globals"
  by (simp add: in_sync_def initial_globals_def split: sum.splits)

text \<open>
  C8. Idempotent reload. A reload leaves the registry in sync with the directory:
  every template it holds has its file there (\<open>LoadTemplates_in_sync\<close>), as has
  the registry the program starts with (\<open>initial_in_sync\<close>). So, of two reloads in
  a row with no change in the directory between them, the second removes no
  template, triggers no cascade (the store is as the first left it), leaves the
  registry, as a map from names to templates and hence its names, as the first left
  it, and returns what the first returned, from every state and also when a file
  fails to parse or the directory cannot be listed. The first of the two, called on
  a registry in sync with the directory, as the registry is initially and after
  every reload of that directory state, removes no template and leaves the store
  alone as well.
\<close>

theorem second_reload_changes_nothing:
  "removedNames w path (snd (LoadTemplates w path g0)) = [] \<and>
   globalStorage (snd (LoadTemplates w path (snd (LoadTemplates w path g0))))
     = globalStorage (snd (LoadTemplates w path g0)) \<and>
   map_of (templates (snd (LoadTemplates w path (snd (LoadTemplates w path g0)))))
     = map_of (templates (snd (LoadTemplates w path g0))) \<and>
   fst ` set (templates (snd (LoadTemplates w path (snd (LoadTemplates w path g0)))))
     = fst ` set (templates (snd (LoadTemplates w path g0))) \<and>
   fst (LoadTemplates w path (snd (LoadTemplates w path g0))) = fst (LoadTemplates w path g0) \<and>
   (in_sync w path g0 \<longrightarrow>
      removedNames w path g0 = [] \<and> globalStorage (snd (LoadTemplates w path g0)) = globalStorage g0)"
proof -
  let ?g1 = "snd (LoadTemplates w path g0)"
  let ?g2 = "snd (LoadTemplates w path ?g1)"
  have sync1: "in_sync w path ?g1"
    by (rule LoadTemplates_in_sync)
  then have second: "removedNames w path ?g1 = []"
    by (simp add: in_sync_removedNames)
  have store2: "globalStorage ?g2 = globalStorage ?g1"
    using sync1 by (rule LoadTemplates_in_sync_step(1))
  have maps: "map_of (templates ?g2) = map_of (templates ?g1)
      \<and> fst (LoadTemplates w path ?g1) = fst (LoadTemplates w path g0)"
  proof (cases "Glob w path ''*.conf.tmpl''")
    case (Inl err)
    then show ?thesis by (simp add: LoadTemplates_def)
  next
    case (Inr files)
    note one = LoadTemplates_result [OF Inr, of g0]
    note two = LoadTemplates_in_sync_step(2) [OF sync1 Inr]
    have "map_of (templates ?g2) = map_of (templates ?g1)"
      unfolding two unfolding one by (simp add: load_templates_twice)
    moreover have "fst (LoadTemplates w path ?g1) = fst (LoadTemplates w path g0)"
      unfolding two unfolding one
      by (simp only: fst_conv snd_conv globals.simps) (rule load_templates_error_same)
    ultimately show ?thesis by simp
  qed
  then have "dom (map_of (templates ?g2)) = dom (map_of (templates ?g1))"
    by simp
  then have names: "fst ` set (templates ?g2) = fst ` set (templates ?g1)"
    by (simp add: dom_map_of_conv_image_fst)
  have first: "removedNames w path g0 = [] \<and> globalStorage ?g1 = globalStorage g0"
    if "in_sync w path g0"
    using that by (simp add: in_sync_removedNames [symmetric] LoadTemplates_in_sync_step(1))
  from second store2 maps names first show ?thesis
    by blast
qed

theorem second_reload_changes_nothing_witness:
  "in_sync good_world ''conf'' (initial_globals :: string globals) \<and>
   removedNames good_world ''conf'' (initial_globals :: string globals) = [] \<and>
   globalStorage (snd (LoadTemplates good_world ''conf'' (initial_globals :: string globals))) = None \<and>
   map_of (templates (snd (LoadTemplates good_world ''conf''
       (snd (LoadTemplates good_world ''conf'' (initial_globals :: string globals))))))
     = map_of (templates (snd (LoadTemplates good_world ''conf'' (initial_globals :: string globals))))"
proof -
  have sync: "in_sync good_world ''conf'' (initial_globals :: string globals)"
    by (rule initial_in_sync)
  have none: "globalStorage (initial_globals :: string globals) = None"
    by (simp add: initial_globals_def)
  from second_reload_changes_nothing [of good_world "''conf''" "initial_globals :: string globals"] sync none
  show ?thesis
    by simp
qed

text \<open>
  A reload that follows the deletion of a template file is the one that removes the
  stale template: the registry holds \<open>old\<close>, whose file is gone, so this reload
  removes it and its config \<open>cfg1\<close>, and the reload after it removes nothing.
\<close>

lemma reload_after_deletion:
  "\<not> in_sync good_world ''conf'' example_globals \<and>
   removedNames good_world ''conf'' example_globals = [''old''] \<and>
   fst (LoadTemplates good_world ''conf'' example_globals) = None \<and>
   stored example_globals ''cfg1'' = Inr ''hello'' \<and>
   stored (snd (LoadTemplates good_world ''conf'' example_globals)) ''cfg1''
     = Inl (Errorf ''Key (id) does not exist: cfg1'') \<and>
   removedNames good_world ''conf'' (snd (LoadTemplates good_world ''conf'' example_globals)) = []"
  by (simp add: template_defs eval_defs)

section \<open>InitStorage and the TTL\<close>

lemma Atoi_examples:
  "Atoi ''259200'' = (259200, None)" "Atoi ''-5'' = (- 5, None)" "Atoi ''+7'' = (7, None)"
  "Atoi ''12a'' = (0, Some (NumError ''invalid syntax''))"
  "Atoi [] = (0, Some (NumError ''invalid syntax''))"
  "Atoi ''-'' = (0, Some (NumError ''invalid syntax''))"
  "Atoi ''99999999999999999999'' = (9223372036854775807, Some (NumError ''value out of range''))"
  "Atoi ''99999999999999999999x'' = (9223372036854775807, Some (NumError ''value out of range''))"
  "Atoi ''-99999999999999999999x'' = (- 9223372036854775808, Some (NumError ''value out of range''))"
  "Atoi ''9999999999999999999x'' = (0, Some (NumError ''invalid syntax''))"
  "Atoi ''9223372036854775808'' = (9223372036854775807, Some (NumError ''value out of range''))"
  "Atoi ''-9223372036854775808'' = (- 9223372036854775808, None)"
  "Atoi ''0000000000000000000000012'' = (12, None)"
  by (simp_all add: Atoi_def ParseInt_def ParseUint_def is_digit_def)

lemma is_digit_code: "is_digit c \<Longrightarrow> 48 \<le> (of_char c :: nat) \<and> (of_char c :: nat) \<le> 57"
  by (auto simp: is_digit_def)

lemma digits_value_mono: "list_all is_digit xs \<Longrightarrow> 0 \<le> n \<Longrightarrow> n \<le> digits_value n xs"
proof (induction xs arbitrary: n)
  case Nil
  then show ?case by simp
next
  case (Cons c xs)
  from Cons.prems have c: "48 \<le> (of_char c :: nat)" and xs: "list_all is_digit xs"
    using is_digit_code [of c] by simp_all
  from c Cons.prems(2) have "n \<le> 10 * n + (int (of_char c) - 48)" and "0 \<le> 10 * n + (int (of_char c) - 48)"
    by linarith+
  with Cons.IH [OF xs, of "10 * n + (int (of_char c) - 48)"] show ?case
    by simp
qed

lemma digits_value_bound:
  "list_all is_digit xs \<Longrightarrow> 0 \<le> n \<Longrightarrow> digits_value n xs < (n + 1) * 10 ^ length xs"
proof (induction xs arbitrary: n)
  case Nil
  then show ?case by simp
next
  case (Cons c xs)
  from Cons.prems have c: "48 \<le> (of_char c :: nat)" "(of_char c :: nat) \<le> 57"
    and xs: "list_all is_digit xs"
    using is_digit_code [of c] by simp_all
  define m where "m = 10 * n + (int (of_char c) - 48)"
  from c Cons.prems(2) have m: "0 \<le> m" "m + 1 \<le> (n + 1) * 10"
    by (simp_all add: m_def algebra_simps)
  from Cons.IH [OF xs m(1)] have "digits_value m xs < (m + 1) * 10 ^ length xs" .
  also from m(2) have "\<dots> \<le> ((n + 1) * 10) * 10 ^ length xs"
    by (intro mult_right_mono) simp_all
  also have "\<dots> = (n + 1) * 10 ^ length (c # xs)"
    by simp
  finally have "digits_value m xs < (n + 1) * 10 ^ length (c # xs)" .
  then show ?case
    by (simp only: digits_value.simps m_def)
qed

lemma ParseUint_loop_result:
  "n \<le> 18446744073709551615 \<Longrightarrow>
   ParseUint_loop n s =
     (if 18446744073709551615 < digits_value (int n) (takeWhile is_digit s) then
        (18446744073709551615, Some (NumError ''value out of range''))
      else if list_all is_digit s then (nat (digits_value (int n) s), None)
      else (0, Some (NumError ''invalid syntax'')))"
proof (induction s arbitrary: n)
  case Nil
  then show ?case by simp
next
  case (Cons c s)
  show ?case
  proof (cases "is_digit c")
    case False
    with Cons.prems show ?thesis by simp
  next
    case True
    then have c: "48 \<le> (of_char c :: nat)" "(of_char c :: nat) \<le> 57"
      using is_digit_code [of c] by simp_all
    define n' where "n' = n * 10 + (of_char c - 48)"
    from c have n': "int n' = 10 * int n + (int (of_char c) - 48)"
      unfolding n'_def by simp
    have tw: "list_all is_digit (takeWhile is_digit s)"
      by (simp add: list_all_iff) (meson set_takeWhileD)
    have rhs1: "digits_value (int n) (takeWhile is_digit (c # s))
        = digits_value (int n') (takeWhile is_digit s)"
      and rhs2: "digits_value (int n) (c # s) = digits_value (int n') s"
      and rhs3: "list_all is_digit (c # s) = list_all is_digit s"
      using \<open>is_digit c\<close> by (simp_all add: n')
    show ?thesis
    proof (cases "1844674407370955162 \<le> n \<or> 18446744073709551615 < n'")
      case True
      then have "18446744073709551615 < int n'"
        unfolding n'_def by linarith
      moreover have "int n' \<le> digits_value (int n') (takeWhile is_digit s)"
        by (rule digits_value_mono [OF tw]) simp
      ultimately have big: "18446744073709551615 < digits_value (int n') (takeWhile is_digit s)"
        by linarith
      have lhs: "ParseUint_loop n (c # s)
          = (18446744073709551615, Some (NumError ''value out of range''))"
        using True \<open>is_digit c\<close> by (auto simp: n'_def)
      show ?thesis
        by (simp only: lhs rhs1 big if_True)
    next
      case False
      then have small: "n' \<le> 18446744073709551615"
        by simp
      have lhs: "ParseUint_loop n (c # s) = ParseUint_loop n' s"
        using False \<open>is_digit c\<close> by (simp add: n'_def)
      show ?thesis
        using Cons.IH [OF small] by (simp only: lhs rhs1 rhs2 rhs3)
    qed
  qed
qed


lemma Second_bounds:
  "(word_of_int 9223372036854775807 :: duration) * Second = - Second"
  "(word_of_int (- 9223372036854775808) :: duration) * Second = 0"
  "(- Second :: duration) \<noteq> 0" "(- Second :: duration) \<noteq> 259200 * Second"
  "(0 :: duration) \<noteq> 259200 * Second"
  by (simp_all add: Second_def)

lemma list_all_takeWhile: "list_all P (takeWhile P xs)"
  by (induction xs) simp_all

lemma digits_value_takeWhile:
  "digits_value 0 (takeWhile is_digit xs) < 10 ^ length xs"
proof -
  have "digits_value 0 (takeWhile is_digit xs) < (0 + 1) * 10 ^ length (takeWhile is_digit xs)"
    by (rule digits_value_bound [OF list_all_takeWhile]) simp
  also have "\<dots> \<le> 10 ^ length xs"
    by (simp add: length_takeWhile_le)
  finally show ?thesis .
qed

lemma Atoi_invalid:
  assumes "s \<noteq> []" and "\<not> valid_integer s"
  shows "(word_of_int (fst (Atoi s)) :: duration) * Second
      = (if positive_overflow s then - Second else 0)"
proof -
  define body where "body = unsigned s"
  have body: "(if hd s = CHR ''-'' \<or> hd s = CHR ''+'' then tl s else s) = body"
    "(if hd s = CHR ''+'' \<or> hd s = CHR ''-'' then tl s else s) = body"
    using assms(1) by (auto simp: body_def unsigned_def)
  have len: "length body \<le> length s"
    by (auto simp: body_def unsigned_def)
  have prefix_small: "digits_value 0 (takeWhile is_digit body) < 10 ^ length body"
    by (rule digits_value_takeWhile)
  show ?thesis
  proof (cases "length s < 19")
    case True
    have pow: "(10 :: int) ^ length body \<le> 10 ^ 18"
      using len True by (intro power_increasing) simp_all
    have small: "digits_value 0 (takeWhile is_digit body) < 1000000000000000000"
      using prefix_small pow by simp
    have all: "list_all is_digit body \<Longrightarrow> digits_value 0 body < 1000000000000000000"
      using small by (simp add: list_all_iff takeWhile_eq_all_conv [THEN iffD2])
    have invalid: "body = [] \<or> \<not> list_all is_digit body"
      using assms(2) all unfolding valid_integer_def body_def [symmetric]
      by (auto split: if_splits)
    then have "Atoi s = (0, Some (NumError ''invalid syntax''))"
      using True assms(1) by (auto simp: Atoi_def Let_def body)
    moreover have "\<not> positive_overflow s"
      using small all unfolding positive_overflow_def body_def [symmetric] by auto
    ultimately show ?thesis
      by simp
  next
    case False
    then have "18 \<le> length body"
      by (auto simp: body_def unsigned_def)
    then have "body \<noteq> []"
      by auto
    then have uint: "ParseUint body =
       (if 18446744073709551615 < digits_value 0 (takeWhile is_digit body) then
          (18446744073709551615, Some (NumError ''value out of range''))
        else if list_all is_digit body then (nat (digits_value 0 body), None)
        else (0, Some (NumError ''invalid syntax'')))"
      using ParseUint_loop_result [of 0 body] by (simp add: ParseUint_def)
    have atoi: "Atoi s = ParseInt s"
      using False by (simp add: Atoi_def)
    have nonneg: "list_all is_digit body \<Longrightarrow> 0 \<le> digits_value 0 body"
      using digits_value_mono [of body 0] by simp
    consider (over) "18446744073709551615 < digits_value 0 (takeWhile is_digit body)"
      | (alldigits) "\<not> 18446744073709551615 < digits_value 0 (takeWhile is_digit body)"
          "list_all is_digit body"
      | (bad) "\<not> 18446744073709551615 < digits_value 0 (takeWhile is_digit body)"
          "\<not> list_all is_digit body"
      by blast
    then show ?thesis
    proof cases
      case over
      then show ?thesis
        using assms(1) unfolding atoi positive_overflow_def body_def [symmetric]
        by (simp add: ParseInt_def Let_def body uint Second_def)
    next
      case alldigits
      with alldigits assms(2) \<open>body \<noteq> []\<close>
      have out: "if hd s = CHR ''-'' then 9223372036854775808 < digits_value 0 body
                 else 9223372036854775808 \<le> digits_value 0 body"
        unfolding valid_integer_def body_def [symmetric] by (auto split: if_splits)
      show ?thesis
        using assms(1) alldigits out nonneg unfolding atoi positive_overflow_def body_def [symmetric]
        by (auto simp: ParseInt_def Let_def body uint Second_def split: if_splits)
    next
      case bad
      then show ?thesis
        using assms(1) unfolding atoi positive_overflow_def body_def [symmetric]
        by (simp add: ParseInt_def Let_def body uint)
    qed
  qed
qed

lemma InitStorage_default_TTL:
  "Getenv e ''USE_REDIS'' = ''true'' \<Longrightarrow> ParseURL e (Getenv e ''REDIS_URL'') = Inr client \<Longrightarrow>
   Getenv e ''REDIS_TTL'' = [] \<Longrightarrow>
   InitStorage e = Inr ((remote_store (Getenv e ''ORG_NAME''))\<lparr>RedisStore := client\<rparr>)"
  by (simp add: InitStorage_def Let_def remote_store_def)

text \<open>A text that \<open>Atoi\<close> reads without error gives that many seconds.\<close>

lemma InitStorage_valid_TTL:
  assumes "Getenv e ''USE_REDIS'' = ''true''"
    and "ParseURL e (Getenv e ''REDIS_URL'') = Inr client"
    and "Getenv e ''REDIS_TTL'' = ''3600''"
  shows "InitStorage e =
      Inr \<lparr>UseRedis = True, MemoryStore = [], MemoryTemplateMap = [], RedisStore = client,
           Organization = Getenv e ''ORG_NAME'', TTL = 3600 * Second\<rparr>"
  using assms by (simp add: InitStorage_def Let_def Atoi_def is_digit_def)

text \<open>
  C10, as stated, fails. \<open>REDIS_TTL = "99999999999999999999x"\<close> is not a valid
  integer, yet \<open>Atoi\<close> meets the digit that overflows 64 bits before it meets the
  letter: it returns the largest \<open>int\<close> with a range error, \<open>InitStorage\<close> drops the
  error, and the product with one second wraps around to minus one second, not 0.
\<close>

theorem InitStorage_TTL_minus_one_second:
  "Getenv overflow_env ''USE_REDIS'' = ''true'' \<and>
   Getenv overflow_env ''REDIS_TTL'' = ''99999999999999999999x'' \<and>
   \<not> valid_integer ''99999999999999999999x'' \<and>
   Atoi ''99999999999999999999x''
     = (9223372036854775807, Some (NumError ''value out of range'')) \<and>
   InitStorage overflow_env =
      Inr \<lparr>UseRedis = True, MemoryStore = [], MemoryTemplateMap = [], RedisStore = empty_server,
           Organization = ''o'', TTL = - Second\<rparr> \<and>
   - Second \<noteq> (0 :: duration)"
  by (simp add: overflow_env_def InitStorage_def Let_def Atoi_def ParseInt_def ParseUint_def
      is_digit_def valid_integer_def unsigned_def Second_def)

text \<open>
  C10, amended. When the remote backend is selected, the URL parses and \<open>REDIS_TTL\<close>
  is a non-empty text that is not a valid integer, \<open>InitStorage\<close> returns no error
  and a store whose TTL is never the default of 259200 seconds: it is minus one
  second when the text has no minus sign and its leading digits exceed 64 bits, or
  it consists of digits that denote a number above the largest \<open>int\<close>; it is 0 in
  every other case, in particular for every such text of fewer than 19 bytes.
\<close>

theorem InitStorage_invalid_TTL:
  assumes "Getenv e ''USE_REDIS'' = ''true''"
    and "ParseURL e (Getenv e ''REDIS_URL'') = Inr client"
    and "Getenv e ''REDIS_TTL'' = ttl"
    and "ttl \<noteq> []"
    and "\<not> valid_integer ttl"
  shows "InitStorage e =
      Inr \<lparr>UseRedis = True, MemoryStore = [], MemoryTemplateMap = [], RedisStore = client,
           Organization = Getenv e ''ORG_NAME'',
           TTL = (if positive_overflow ttl then - Second else 0)\<rparr> \<and>
     (if positive_overflow ttl then - Second else 0) \<noteq> 259200 * Second \<and>
     (length ttl < 19 \<longrightarrow> \<not> positive_overflow ttl)"
proof -
  have "InitStorage e =
      Inr \<lparr>UseRedis = True, MemoryStore = [], MemoryTemplateMap = [], RedisStore = client,
           Organization = Getenv e ''ORG_NAME'', TTL = word_of_int (fst (Atoi ttl)) * Second\<rparr>"
    using assms(1-4) by (simp add: InitStorage_def Let_def)
  moreover have "(if positive_overflow ttl then - Second else 0) \<noteq> 259200 * Second"
    by (simp add: Second_bounds)
  moreover have "\<not> positive_overflow ttl" if "length ttl < 19"
  proof -
    have "length (unsigned ttl) \<le> length ttl"
      by (auto simp: unsigned_def)
    with that have "(10 :: int) ^ length (unsigned ttl) \<le> 10 ^ 18"
      by (intro power_increasing) simp_all
    with digits_value_takeWhile [of "unsigned ttl"]
    have small: "digits_value 0 (takeWhile is_digit (unsigned ttl)) < 1000000000000000000"
      by simp
    then have "list_all is_digit (unsigned ttl) \<Longrightarrow>
        digits_value 0 (unsigned ttl) < 1000000000000000000"
      by (simp add: list_all_iff takeWhile_eq_all_conv [THEN iffD2])
    with small show ?thesis
      unfolding positive_overflow_def by auto
  qed
  ultimately show ?thesis
    using Atoi_invalid [OF assms(4,5)] by simp
qed

theorem InitStorage_invalid_TTL_witness:
  "Getenv example_env ''USE_REDIS'' = ''true'' \<and>
   ParseURL example_env (Getenv example_env ''REDIS_URL'') = Inr empty_server \<and>
   Getenv example_env ''REDIS_TTL'' = ''3 days'' \<and>
   \<not> valid_integer ''3 days'' \<and>
   InitStorage example_env =
      Inr \<lparr>UseRedis = True, MemoryStore = [], MemoryTemplateMap = [], RedisStore = empty_server,
           Organization = ''o'', TTL = 0\<rparr>"
proof -
  have h1: "Getenv example_env ''USE_REDIS'' = ''true''"
    and h2: "ParseURL example_env (Getenv example_env ''REDIS_URL'') = Inr empty_server"
    and h3: "Getenv example_env ''REDIS_TTL'' = ''3 days''"
    and h4: "''3 days'' \<noteq> []"
    and h5: "\<not> valid_integer ''3 days''"
    and org: "Getenv example_env ''ORG_NAME'' = ''o''"
    and small: "length ''3 days'' < 19"
    by (simp_all add: example_env_def valid_integer_def unsigned_def is_digit_def)
  from InitStorage_invalid_TTL [OF h1 h2 h3 h4 h5] small h1 h2 h3 h5 org show ?thesis
    by simp
qed

section \<open>Set and SetWithTemplate\<close>

text \<open>
  C9. \<open>Set(id, content)\<close> is \<open>SetWithTemplate(id, content, "unknown")\<close>: in every
  store, of either backend, the two calls return the same error and leave the same
  store.
\<close>

theorem Set_is_SetWithTemplate_unknown:
  "Set s id' content = SetWithTemplate s id' content ''unknown''"
  by (simp add: Set_def)

end
